theory Spec2Isabelle
  imports Complex_Main "HOL-Library.Word"
begin

section \<open>Python string primitives used by \<open>lib/data/video.py\<close>\<close>

text \<open>
  Descriptors are Python strings. A character is modelled as a code point below 256;
  the predicates below are Python 3's \<open>str.isspace\<close>, \<open>str.isalpha\<close> and the decimal
  digits accepted by \<open>int()\<close>, restricted to that range.
\<close>

datatype pyerr = ValueError | TypeError | AttributeError | CvError

definition isspace :: "char \<Rightarrow> bool" where
  "isspace c = (of_char c \<in> set [9, 10, 11, 12, 13, 28, 29, 30, 31, 32, 133, 160 :: nat])"

definition isalpha_char :: "char \<Rightarrow> bool" where
  "isalpha_char c =
     (let n = (of_char c :: nat)
      in (65 \<le> n \<and> n \<le> 90) \<or> (97 \<le> n \<and> n \<le> 122) \<or> n = 170 \<or> n = 181 \<or> n = 186
         \<or> (192 \<le> n \<and> n \<le> 214) \<or> (216 \<le> n \<and> n \<le> 246) \<or> (248 \<le> n \<and> n \<le> 255))"

definition isalpha :: "string \<Rightarrow> bool" where
  "isalpha s = (s \<noteq> [] \<and> list_all isalpha_char s)"

definition isdigit :: "char \<Rightarrow> bool" where
  "isdigit c = (48 \<le> (of_char c :: nat) \<and> (of_char c :: nat) \<le> 57)"

definition digit :: "char \<Rightarrow> nat" where
  "digit c = of_char c - 48"

definition strip :: "string \<Rightarrow> string" where
  "strip s = rev (dropWhile isspace (rev (dropWhile isspace s)))"

text \<open>
  \<open>s.split(sep)\<close> for a one-character separator. The result is never the empty list, so
  the first branch of the inner case is never taken.
\<close>

fun split :: "char \<Rightarrow> string \<Rightarrow> string list" where
  "split sep [] = [[]]"
| "split sep (c # cs) =
     (if c = sep then [] # split sep cs
      else (case split sep cs of [] \<Rightarrow> [[c]] | tok # toks \<Rightarrow> (c # tok) # toks))"

text \<open>
  \<open>int(s)\<close> on a string, base 10: surrounding whitespace is dropped, one sign is allowed,
  then at least one digit, with single underscores allowed between digits.
\<close>

fun int_digits :: "nat \<Rightarrow> string \<Rightarrow> nat option" where
  "int_digits acc [] = Some acc"
| "int_digits acc (c # cs) =
     (if isdigit c then int_digits (acc * 10 + digit c) cs
      else if c = CHR ''_'' then
        (case cs of
           [] \<Rightarrow> None
         | d # ds \<Rightarrow> if isdigit d then int_digits (acc * 10 + digit d) ds else None)
      else None)"

definition int_body :: "string \<Rightarrow> nat option" where
  "int_body s = (case s of [] \<Rightarrow> None | c # cs \<Rightarrow> if isdigit c then int_digits (digit c) cs else None)"

definition py_int :: "string \<Rightarrow> int option" where
  "py_int s =
     (case strip s of
        [] \<Rightarrow> None
      | c # cs \<Rightarrow>
          if c = CHR ''-'' then map_option (\<lambda>n. - int n) (int_body cs)
          else if c = CHR ''+'' then map_option int (int_body cs)
          else map_option int (int_body (c # cs)))"

section \<open>Images, the object store and the environment\<close>

text \<open>
  An image is a numpy array of shape \<open>(rows, cols, 3)\<close> with \<open>uint8\<close> entries. Arrays are
  mutable objects, so they live in a store and are referred to by address; the store also
  holds the position of OpenCV's global random generator and the lines printed so far.
\<close>

type_synonym pixels = "nat \<Rightarrow> nat \<Rightarrow> nat \<Rightarrow> 8 word"

record image =
  rows :: nat
  cols :: nat
  pix :: pixels

type_synonym addr = nat

datatype source = Device int | Name string

record world =
  heap :: "image list"
  draws :: nat
  stdout :: "(string \<times> source) list"

definition alloc :: "image \<Rightarrow> world \<Rightarrow> addr \<times> world" where
  "alloc im w = (length (heap w), w\<lparr>heap := heap w @ [im]\<rparr>)"

definition zeros :: "nat \<Rightarrow> nat \<Rightarrow> image" where
  "zeros h w = \<lparr>rows = h, cols = w, pix = (\<lambda>r c k. 0)\<rparr>"

type_synonym vec3 = "real \<times> real \<times> real"
type_synonym mat3 = "vec3 \<times> vec3 \<times> vec3"
type_synonym quad = "vec3 list"
type_synonym color = "8 word \<times> 8 word \<times> 8 word"

text \<open>
  The animated-scene engine of \<open>lib/data/tst_scene_render.py\<close> is not part of the sources
  at hand. An engine object is its background \<open>sceneBg\<close> and an opaque animation state.
\<close>

record engine =
  sceneBg :: image
  anim :: nat

text \<open>
  What the program takes from outside: the files \<open>cv.imread\<close> can read, the interpolation
  of \<open>cv.resize\<close>, Python's \<open>float()\<close> on a string (the noise level is idealised as a real), the samples
  of \<open>cv.randn\<close> (already rounded to \<open>int8\<close>), the geometry helpers of \<open>lib/data/common.py\<close>,
  OpenCV's projection and polygon fill, whether \<open>cv.VideoCapture\<close> opens a source, and the
  scene engine.
\<close>

record env =
  imread :: "string \<Rightarrow> image option"
  resize_pix :: "image \<Rightarrow> nat \<Rightarrow> nat \<Rightarrow> pixels"
  py_float :: "string \<Rightarrow> real option"
  randn :: "nat \<Rightarrow> real \<Rightarrow> pixels"
  lookat :: "vec3 \<Rightarrow> vec3 \<Rightarrow> mat3 \<times> vec3"
  mtx2rvec :: "mat3 \<Rightarrow> vec3"
  projectPoint :: "vec3 \<Rightarrow> vec3 \<Rightarrow> vec3 \<Rightarrow> mat3 \<Rightarrow> real list \<Rightarrow> real \<times> real"
  fillConvexPoly :: "image \<Rightarrow> (int \<times> int) list \<Rightarrow> color \<Rightarrow> pixels"
  video_opens :: "source \<Rightarrow> bool"
  TestSceneRender :: "image option \<Rightarrow> image option \<Rightarrow> bool \<Rightarrow> pyerr + engine"
  getNextFrame :: "engine \<Rightarrow> pyerr + image \<times> engine"

text \<open>\<open>cv.imread\<close> returns \<open>None\<close> for a file it cannot read, a non-empty image otherwise.\<close>

definition cv_imread :: "env \<Rightarrow> string \<Rightarrow> image option" where
  "cv_imread e p =
     (case imread e p of
        None \<Rightarrow> None
      | Some im \<Rightarrow> if rows im = 0 \<or> cols im = 0 then None else Some im)"

text \<open>
  \<open>cv.resize(src, (w, h))\<close> raises on a missing or empty source and on a size that is not
  positive; otherwise the result has \<open>h\<close> rows and \<open>w\<close> columns.
\<close>

definition cv_resize :: "env \<Rightarrow> image option \<Rightarrow> int \<times> int \<Rightarrow> pyerr + image" where
  "cv_resize e src sz =
     (case src of
        None \<Rightarrow> Inl CvError
      | Some im \<Rightarrow>
          if rows im = 0 \<or> cols im = 0 \<or> fst sz \<le> 0 \<or> snd sz \<le> 0 then Inl CvError
          else Inr \<lparr>rows = nat (snd sz), cols = nat (fst sz),
                    pix = resize_pix e im (nat (fst sz)) (nat (snd sz))\<rparr>)"

text \<open>
  \<open>cv.add(buf, noise, dtype=cv.CV_8UC3)\<close> with \<open>buf\<close> of type \<open>uint8\<close> and \<open>noise\<close> of type
  \<open>int8\<close>: the shapes must agree, and every sum is clamped to \<open>0..255\<close>.
\<close>

definition saturate :: "int \<Rightarrow> 8 word" where
  "saturate i = word_of_int (max 0 (min 255 i))"

definition cv_add :: "image \<Rightarrow> image \<Rightarrow> pyerr + image" where
  "cv_add a n =
     (if rows a = rows n \<and> cols a = cols n
      then Inr \<lparr>rows = rows a, cols = cols a,
                pix = (\<lambda>r c k. saturate (uint (pix a r c k) + sint (pix n r c k)))\<rparr>
      else Inl CvError)"

text \<open>
  \<open>noise = np.zeros(shape, np.int8); cv.randn(noise, np.zeros(3), np.ones(3)*255*sigma)\<close>:
  one draw from the global generator, which advances.
\<close>

definition draw_noise :: "env \<Rightarrow> nat \<Rightarrow> nat \<Rightarrow> real \<Rightarrow> world \<Rightarrow> image \<times> world" where
  "draw_noise e h w sigma st =
     (\<lparr>rows = h, cols = w, pix = randn e (draws st) (255 * sigma)\<rparr>, st\<lparr>draws := draws st + 1\<rparr>)"

definition bind_err :: "'e + 'a \<Rightarrow> ('a \<Rightarrow> 'e + 'b) \<Rightarrow> 'e + 'b" where
  "bind_err m f = (case m of Inl e \<Rightarrow> Inl e | Inr x \<Rightarrow> f x)"

section \<open>Synthetic generators\<close>

text \<open>
  The instance attributes of \<open>VideoSynthBase\<close> and of its subclasses. \<open>Chess\<close> adds the grid,
  the camera model, the simulated time and the pose that \<open>render\<close> stores; \<open>Book\<close> and \<open>Cube\<close>
  replace \<open>render\<close> by a scene engine.
\<close>

record chess =
  grid_size :: "nat \<times> nat"
  white_quads :: "quad list"
  black_quads :: "quad list"
  K :: mat3
  dist_coef :: "real list"
  t :: real
  rvec :: "vec3 option"
  tvec :: "vec3 option"

datatype variant = VBase | VChess chess | VBook engine | VCube engine

record generator =
  bg :: "addr option"
  frame_size :: "int \<times> int"
  noise :: real
  variant :: variant

subsection \<open>\<open>VideoSynthBase.__init__\<close> (lines 48-61)\<close>

text \<open>\<open>w, h = map(int, size.split('x'))\<close>: exactly two parts, each an integer.\<close>

definition parse_size :: "string \<Rightarrow> pyerr + int \<times> int" where
  "parse_size s =
     (case split CHR ''x'' s of
        [a, b] \<Rightarrow>
          (case py_int a of
             None \<Rightarrow> Inl ValueError
           | Some x \<Rightarrow> (case py_int b of None \<Rightarrow> Inl ValueError | Some y \<Rightarrow> Inr (x, y)))
      | _ \<Rightarrow> Inl ValueError)"

text \<open>
  Lines 49-54: without \<open>bg\<close> the default size; with \<open>bg\<close> the image is loaded and gives the
  size, and \<open>self.bg.shape\<close> raises when the file could not be read.
\<close>

definition load_bg :: "env \<Rightarrow> string option \<Rightarrow> world \<Rightarrow> pyerr + (addr option \<times> (int \<times> int)) \<times> world" where
  "load_bg e b w =
     (case b of
        None \<Rightarrow> Inr ((None, (640, 480)), w)
      | Some p \<Rightarrow>
          (case cv_imread e p of
             None \<Rightarrow> Inl AttributeError
           | Some im \<Rightarrow>
               (let (a, w1) = alloc im w
                in Inr ((Some a, (int (cols im), int (rows im))), w1))))"

text \<open>
  Lines 56-59: with \<open>size\<close> the frame size is replaced and the background is resized,
  whether or not there is one.
\<close>

definition apply_size :: "env \<Rightarrow> string option \<Rightarrow> addr option \<times> (int \<times> int) \<Rightarrow> world
    \<Rightarrow> pyerr + (addr option \<times> (int \<times> int)) \<times> world" where
  "apply_size e sz cur w =
     (case sz of
        None \<Rightarrow> Inr (cur, w)
      | Some s \<Rightarrow>
          bind_err (parse_size s) (\<lambda>fs.
          bind_err (cv_resize e (map_option (\<lambda>a. heap w ! a) (fst cur)) fs) (\<lambda>im.
            (let (a, w1) = alloc im w in Inr ((Some a, fs), w1)))))"

text \<open>Line 61: \<open>float(noise)\<close>, of the default \<open>0.0\<close> or of the parameter's string.\<close>

definition parse_noise :: "env \<Rightarrow> string option \<Rightarrow> pyerr + real" where
  "parse_noise e n =
     (case n of
        None \<Rightarrow> Inr 0
      | Some s \<Rightarrow> (case py_float e s of None \<Rightarrow> Inl ValueError | Some x \<Rightarrow> Inr x))"

text \<open>
  The constructor is called as \<open>Class(**params)\<close>: the keys \<open>size\<close>, \<open>noise\<close> and \<open>bg\<close> bind
  the named arguments, every other key is absorbed, and a key \<open>self\<close> collides with the
  receiver.
\<close>

definition VideoSynthBase_init :: "env \<Rightarrow> (string \<rightharpoonup> string) \<Rightarrow> world \<Rightarrow> pyerr + generator \<times> world" where
  "VideoSynthBase_init e kw w =
     (if kw ''self'' \<noteq> None then Inl TypeError
      else
        bind_err (load_bg e (kw ''bg'') w) (\<lambda>(cur, w1).
        bind_err (apply_size e (kw ''size'') cur w1) (\<lambda>(cur2, w2).
        bind_err (parse_noise e (kw ''noise'')) (\<lambda>nz.
          Inr (\<lparr>bg = fst cur2, frame_size = snd cur2, noise = nz, variant = VBase\<rparr>, w2)))))"

subsection \<open>The simulated time is a Python float\<close>

text \<open>
  \<open>self.t\<close> is a double. A double is represented by its value; \<open>to_double\<close> rounds a real to
  the nearest double, ties to the even significand, with 53 significant bits (the exponent
  range is not modelled: the time is \<open>0\<close> or at least \<open>1/30\<close>, and far below overflow).
  \<open>float_add\<close> and \<open>float_div\<close> are Python's \<open>+\<close> and \<open>/\<close> on floats.
\<close>

definition round_even :: "real \<Rightarrow> int" where
  "round_even x =
     (let d = \<lfloor>x\<rfloor>; r = x - of_int d
      in if r < 1 / 2 then d else if 1 / 2 < r then d + 1 else if even d then d else d + 1)"

definition ulp :: "real \<Rightarrow> real" where
  "ulp v = 2 powr (of_int \<lfloor>log 2 \<bar>v\<bar>\<rfloor> - 52)"

definition to_double :: "real \<Rightarrow> real" where
  "to_double v = (if v = 0 then 0 else sgn v * of_int (round_even (\<bar>v\<bar> / ulp v)) * ulp v)"

definition float_add :: "real \<Rightarrow> real \<Rightarrow> real" where
  "float_add x y = to_double (x + y)"

definition float_div :: "real \<Rightarrow> real \<Rightarrow> real" where
  "float_div x y = to_double (x / y)"

subsection \<open>\<open>Chess\<close> (lines 109-154)\<close>

definition quad_at :: "nat \<Rightarrow> nat \<Rightarrow> quad" where
  "quad_at j i =
     [(real j, real i, 0), (real j + 1, real i, 0), (real j + 1, real i + 1, 0), (real j, real i + 1, 0)]"

definition ndindex :: "nat \<Rightarrow> nat \<Rightarrow> (nat \<times> nat) list" where
  "ndindex a b = concat (map (\<lambda>i. map (\<lambda>j. (i, j)) [0..<b]) [0..<a])"

definition quads_of_parity :: "nat \<Rightarrow> nat \<Rightarrow> nat \<Rightarrow> quad list" where
  "quads_of_parity sx sy par =
     map (\<lambda>(i, j). quad_at j i) (filter (\<lambda>(i, j). (i + j) mod 2 = par) (ndindex sy sx))"

definition Chess_init :: "env \<Rightarrow> (string \<rightharpoonup> string) \<Rightarrow> world \<Rightarrow> pyerr + generator \<times> world" where
  "Chess_init e kw w0 =
     bind_err (VideoSynthBase_init e kw w0) (\<lambda>(g, w1).
       (let w = real_of_int (fst (frame_size g)); h = real_of_int (snd (frame_size g));
            sx = 10; sy = 7; fx = 9 / 10
        in Inr (g\<lparr>variant := VChess
                  \<lparr>grid_size = (sx, sy),
                   white_quads = quads_of_parity sx sy 0,
                   black_quads = quads_of_parity sx sy 1,
                   K = ((fx * w, 0, (1 / 2) * (w - 1)), (0, fx * w, (1 / 2) * (h - 1)), (0, 0, 1)),
                   dist_coef = [- (2 / 10), 1 / 10, 0, 0],
                   t = 0, rvec = None, tvec = None\<rparr>\<rparr>, w1)))"

definition vadd :: "vec3 \<Rightarrow> vec3 \<Rightarrow> vec3" where
  "vadd a b = (case a of (a1, a2, a3) \<Rightarrow> case b of (b1, b2, b3) \<Rightarrow> (a1 + b1, a2 + b2, a3 + b3))"

definition vscale :: "vec3 \<Rightarrow> real \<Rightarrow> vec3" where
  "vscale a k = (case a of (a1, a2, a3) \<Rightarrow> (a1 * k, a2 * k, a3 * k))"

text \<open>\<open>np.int32(x)\<close> on a float: truncation towards zero (the 32-bit range is not modelled).\<close>

definition int32 :: "real \<Rightarrow> int" where
  "int32 x = (if 0 \<le> x then \<lfloor>x\<rfloor> else \<lceil>x\<rceil>)"

text \<open>\<open>cv.fillConvexPoly(img, pts, color, cv.LINE_AA, shift=2)\<close> draws into \<open>img\<close> in place.\<close>

definition fill_poly :: "env \<Rightarrow> addr \<Rightarrow> (int \<times> int) list \<Rightarrow> color \<Rightarrow> world \<Rightarrow> world" where
  "fill_poly e a pts col w =
     w\<lparr>heap := (heap w)[a := (heap w ! a)\<lparr>pix := fillConvexPoly e (heap w ! a) pts col\<rparr>]\<rparr>"

text \<open>Lines 132-136; \<open>self.rvec\<close> and \<open>self.tvec\<close> exist only once \<open>render\<close> has stored them.\<close>

definition draw_quads :: "env \<Rightarrow> chess \<Rightarrow> addr \<Rightarrow> quad list \<Rightarrow> color \<Rightarrow> world \<Rightarrow> pyerr + world" where
  "draw_quads e c img quads col w =
     (case rvec c of
        None \<Rightarrow> Inl AttributeError
      | Some rv \<Rightarrow>
          (case tvec c of
             None \<Rightarrow> Inl AttributeError
           | Some tv \<Rightarrow>
               (let img_quads = map (map (\<lambda>p. projectPoint e p rv tv (K c) (dist_coef c))) quads
                in Inr (fold (\<lambda>q. fill_poly e img (map (\<lambda>(x, y). (int32 (x * 4), int32 (y * 4))) q) col)
                          img_quads w))))"

text \<open>
  Lines 142-148, as a function of the local \<open>t\<close> of \<open>render\<close>: the elevation \<open>phi\<close>, the
  offset \<open>ofs\<close>, \<open>eye_pos\<close> and \<open>target_pos\<close>.
\<close>

definition camera :: "nat \<times> nat \<Rightarrow> real \<Rightarrow> real \<times> vec3 \<times> vec3 \<times> vec3" where
  "camera grid tm =
     (let sx = real (fst grid); sy = real (snd grid);
          center = ((1 / 2) * sx, (1 / 2) * sy, 0);
          phi = pi / 3 + sin (tm * 3) * pi / 8;
          c = cos phi; s = sin phi;
          ofs = vscale (vscale (sin ((12 / 10) * tm), cos ((18 / 10) * tm), 0) sx) (2 / 10);
          eye_pos = vadd (vadd center (vscale (cos tm * c, sin tm * c, s) 15)) ofs;
          target_pos = vadd center ofs
      in (phi, ofs, eye_pos, target_pos))"

text \<open>
  Lines 138-154. The local \<open>t\<close> is read before \<open>self.t\<close> is advanced; the advance is the
  float addition of the float \<open>1.0/30.0\<close>. The geometry computed from the local \<open>t\<close> is
  idealised: real arithmetic, sine and cosine.
\<close>

definition Chess_render :: "env \<Rightarrow> chess \<Rightarrow> addr \<Rightarrow> world \<Rightarrow> pyerr + chess \<times> world" where
  "Chess_render e c dst w =
     (let tm = t c;
          c1 = c\<lparr>t := float_add (t c) (float_div 1 30)\<rparr>;
          (phi, ofs, eye_pos, target_pos) = camera (grid_size c1) tm;
          (R, tv) = lookat e eye_pos target_pos;
          c2 = c1\<lparr>tvec := Some tv\<rparr>;
          c3 = c2\<lparr>rvec := Some (mtx2rvec e R)\<rparr>
      in bind_err (draw_quads e c3 dst (white_quads c3) (245, 245, 245) w) (\<lambda>w1.
         bind_err (draw_quads e c3 dst (black_quads c3) (10, 10, 10) w1) (\<lambda>w2.
           Inr (c3, w2))))"

subsection \<open>\<open>VideoSynthBase.render\<close>, \<open>read\<close> and \<open>isOpened\<close> (lines 63-83)\<close>

text \<open>
  \<open>self.render(buf)\<close>: nothing for the base class, the chessboard for \<open>Chess\<close>. A \<open>Book\<close> or
  \<open>Cube\<close> holds an engine object there, which is not callable; they override \<open>read\<close> and
  never get here.
\<close>

definition render :: "env \<Rightarrow> generator \<Rightarrow> addr \<Rightarrow> world \<Rightarrow> pyerr + generator \<times> world" where
  "render e g dst w =
     (case variant g of
        VBase \<Rightarrow> Inr (g, w)
      | VChess c \<Rightarrow> bind_err (Chess_render e c dst w) (\<lambda>(c', w'). Inr (g\<lparr>variant := VChess c'\<rparr>, w'))
      | VBook _ \<Rightarrow> Inl TypeError
      | VCube _ \<Rightarrow> Inl TypeError)"

text \<open>\<open>np.zeros((h, w, 3), dtype)\<close> raises on a negative dimension.\<close>

definition check_dims :: "int \<times> int \<Rightarrow> pyerr + nat \<times> nat" where
  "check_dims fs = (if fst fs < 0 \<or> snd fs < 0 then Inl ValueError else Inr (nat (snd fs), nat (fst fs)))"

text \<open>
  The result is Python's pair \<open>(True, buf)\<close>, with \<open>buf\<close> the address of the frame, together
  with the generator and the store after the call.
\<close>

definition VideoSynthBase_read :: "env \<Rightarrow> generator \<Rightarrow> world \<Rightarrow> pyerr + bool \<times> addr \<times> generator \<times> world" where
  "VideoSynthBase_read e g w =
     bind_err (case bg g of
                 None \<Rightarrow> bind_err (check_dims (frame_size g)) (\<lambda>(h, wd). Inr (alloc (zeros h wd) w))
               | Some b \<Rightarrow> Inr (alloc (heap w ! b) w)) (\<lambda>(buf, w1).
     bind_err (render e g buf w1) (\<lambda>(g1, w2).
       if noise g1 > 0 then
         bind_err (check_dims (frame_size g1)) (\<lambda>(h, wd).
           (let (nz, w3) = draw_noise e h wd (noise g1) w2
            in bind_err (cv_add (heap w3 ! buf) nz) (\<lambda>sum.
                 (let (buf', w4) = alloc sum w3 in Inr (True, buf', g1, w4)))))
       else Inr (True, buf, g1, w2)))"

definition isOpened_synth :: "generator \<Rightarrow> bool" where
  "isOpened_synth g = True"

subsection \<open>\<open>Book\<close> and \<open>Cube\<close> (lines 85-107)\<close>

definition Book_init :: "env \<Rightarrow> (string \<rightharpoonup> string) \<Rightarrow> world \<Rightarrow> pyerr + generator \<times> world" where
  "Book_init e kw w0 =
     bind_err (VideoSynthBase_init e kw w0) (\<lambda>(g, w1).
       (let backGr = cv_imread e ''../data/graf1.png'';
            fgr = cv_imread e ''../data/box.png''
        in bind_err (TestSceneRender e backGr fgr False) (\<lambda>eng.
             Inr (g\<lparr>variant := VBook eng\<rparr>, w1))))"

definition Cube_init :: "env \<Rightarrow> (string \<rightharpoonup> string) \<Rightarrow> world \<Rightarrow> pyerr + generator \<times> world" where
  "Cube_init e kw w0 =
     bind_err (VideoSynthBase_init e kw w0) (\<lambda>(g, w1).
       bind_err (TestSceneRender e (cv_imread e ''../data/pca_test1.jpg'') None True) (\<lambda>eng.
         Inr (g\<lparr>variant := VCube eng\<rparr>, w1)))"

text \<open>
  \<open>Book.read\<close> and \<open>Cube.read\<close> have the same body: noise of the engine background's shape,
  added to the engine's next frame.
\<close>

definition Scene_read :: "env \<Rightarrow> generator \<Rightarrow> engine \<Rightarrow> (engine \<Rightarrow> variant) \<Rightarrow> world
    \<Rightarrow> pyerr + bool \<times> addr \<times> generator \<times> world" where
  "Scene_read e g eng mk w =
     (let (nz, w1) = draw_noise e (rows (sceneBg eng)) (cols (sceneBg eng)) (noise g) w
      in bind_err (getNextFrame e eng) (\<lambda>(frame, eng').
         bind_err (cv_add frame nz) (\<lambda>sum.
           (let (a, w2) = alloc sum w1 in Inr (True, a, g\<lparr>variant := mk eng'\<rparr>, w2)))))"

text \<open>Method dispatch of \<open>cap.read()\<close> on a synthetic generator.\<close>

definition read :: "env \<Rightarrow> generator \<Rightarrow> world \<Rightarrow> pyerr + bool \<times> addr \<times> generator \<times> world" where
  "read e g w =
     (case variant g of
        VBook eng \<Rightarrow> Scene_read e g eng VBook w
      | VCube eng \<Rightarrow> Scene_read e g eng VCube w
      | _ \<Rightarrow> VideoSynthBase_read e g w)"

section \<open>The source factory (lines 157-206)\<close>

datatype cls = ClsBase | ClsChess | ClsBook | ClsCube

definition classes :: "string \<rightharpoonup> cls" where
  "classes = [''chess'' \<mapsto> ClsChess, ''book'' \<mapsto> ClsBook, ''cube'' \<mapsto> ClsCube]"

definition presets :: "string \<rightharpoonup> string" where
  "presets =
     [''empty'' \<mapsto> ''synth:'',
      ''lena'' \<mapsto> ''synth:bg=../data/lena.jpg:noise=0.1'',
      ''chess'' \<mapsto> ''synth:class=chess:bg=../data/lena.jpg:noise=0.1:size=640x480'',
      ''book'' \<mapsto> ''synth:class=book:bg=../data/graf1.png:noise=0.1:size=640x480'',
      ''cube'' \<mapsto> ''synth:class=cube:bg=../data/pca_test1.jpg:noise=0.0:size=640x480'']"

text \<open>A real capture: what it was opened on, whether it opened, and the properties set on it.\<close>

record capture =
  cap_source :: source
  opened :: bool
  props :: "(nat \<times> int) list"

datatype cap = Synth generator | Video capture

definition isOpened :: "cap \<Rightarrow> bool" where
  "isOpened c = (case c of Synth g \<Rightarrow> isOpened_synth g | Video v \<Rightarrow> opened v)"

text \<open>Lines 180-184: the split on \<open>:\<close> and the drive letter.\<close>

definition drive_letter :: "string list \<Rightarrow> bool" where
  "drive_letter chunks = (length chunks > 1 \<and> length (hd chunks) = 1 \<and> isalpha (hd chunks))"

definition chunks_of :: "string \<Rightarrow> string list" where
  "chunks_of s =
     (let chunks = split CHR '':'' s
      in if drive_letter chunks
         then (hd chunks @ '':'' @ hd (tl chunks)) # tl (tl chunks)
         else chunks)"

text \<open>Lines 186-188: the first chunk is a device index when \<open>int\<close> accepts it.\<close>

definition source_of :: "string \<Rightarrow> source" where
  "source_of s = (case py_int s of Some i \<Rightarrow> Device i | None \<Rightarrow> Name s)"

text \<open>
  Line 189: \<open>dict(s.split('=') for s in chunks[1:])\<close>. Every element must have exactly two
  parts; a later key replaces an earlier one.
\<close>

fun build_params :: "string list \<Rightarrow> (string \<rightharpoonup> string) \<Rightarrow> pyerr + (string \<rightharpoonup> string)" where
  "build_params [] m = Inr m"
| "build_params (s # ss) m =
     (case split CHR ''='' s of
        [k, v] \<Rightarrow> build_params ss (m(k \<mapsto> v))
      | _ \<Rightarrow> Inl ValueError)"

text \<open>Lines 179-189 together: the kind token and the parameters of a descriptor.\<close>

definition parse_descriptor :: "string \<Rightarrow> pyerr + source \<times> (string \<rightharpoonup> string)" where
  "parse_descriptor d =
     (let chunks = chunks_of (strip d)
      in bind_err (build_params (tl chunks) Map.empty) (\<lambda>params.
           Inr (source_of (hd chunks), params)))"

text \<open>Line 193: \<open>classes.get(params.get('class', None), VideoSynthBase)\<close>.\<close>

definition class_of :: "(string \<rightharpoonup> string) \<Rightarrow> cls" where
  "class_of params =
     (case params ''class'' of
        None \<Rightarrow> ClsBase
      | Some n \<Rightarrow> (case classes n of None \<Rightarrow> ClsBase | Some k \<Rightarrow> k))"

definition construct :: "env \<Rightarrow> cls \<Rightarrow> (string \<rightharpoonup> string) \<Rightarrow> world \<Rightarrow> pyerr + generator \<times> world" where
  "construct e k params w =
     (case k of
        ClsBase \<Rightarrow> VideoSynthBase_init e params w
      | ClsChess \<Rightarrow> Chess_init e params w
      | ClsBook \<Rightarrow> Book_init e params w
      | ClsCube \<Rightarrow> Cube_init e params w)"

text \<open>
  Lines 191-201: a synthetic generator, whose constructor's exceptions are swallowed, or a
  real capture, on which a \<open>size\<close> parameter sets width (property 3) and height (property 4).
\<close>

definition open_source :: "env \<Rightarrow> source \<Rightarrow> (string \<rightharpoonup> string) \<Rightarrow> world \<Rightarrow> pyerr + cap option \<times> world" where
  "open_source e src params w =
     (if src = Name ''synth'' then
        (case construct e (class_of params) params w of
           Inl _ \<Rightarrow> Inr (None, w)
         | Inr (g, w1) \<Rightarrow> Inr (Some (Synth g), w1))
      else
        (let v = \<lparr>cap_source = src, opened = video_opens e src, props = []\<rparr>
         in case params ''size'' of
              None \<Rightarrow> Inr (Some (Video v), w)
            | Some s \<Rightarrow>
                bind_err (parse_size s) (\<lambda>(wd, ht).
                  Inr (Some (Video (v\<lparr>props := [(3, wd), (4, ht)]\<rparr>)), w))))"

definition unopened :: "cap option \<Rightarrow> bool" where
  "unopened c = (case c of None \<Rightarrow> True | Some x \<Rightarrow> \<not> isOpened x)"

definition warn :: "source \<Rightarrow> world \<Rightarrow> world" where
  "warn src w = w\<lparr>stdout := stdout w @ [(''Warning: unable to open video source: '', src)]\<rparr>"

text \<open>
  Lines 179-201, one resolution up to the test of line 202: the kind token and the source
  it gave, if any.
\<close>

definition attempt :: "env \<Rightarrow> string \<Rightarrow> world \<Rightarrow> pyerr + source \<times> cap option \<times> world" where
  "attempt e d w =
     bind_err (parse_descriptor d) (\<lambda>(src, params).
     bind_err (open_source e src params w) (\<lambda>(c, w1). Inr (src, c, w1)))"

text \<open>\<open>create_capture(source, fallback)\<close>; the recursive call of line 205 passes \<open>None\<close>.\<close>

function create_capture :: "env \<Rightarrow> string \<Rightarrow> string option \<Rightarrow> world \<Rightarrow> pyerr + cap option \<times> world" where
  "create_capture e d fallback w =
     (case attempt e d w of
        Inl err \<Rightarrow> Inl err
      | Inr (src, c, w1) \<Rightarrow>
          if unopened c then
            (case fallback of
               Some fb \<Rightarrow> create_capture e fb None (warn src w1)
             | None \<Rightarrow> Inr (c, warn src w1))
          else Inr (c, w1))"
  by pat_completeness auto
termination
  by (relation "measure (\<lambda>(e, d, fallback, w). case fallback of None \<Rightarrow> 0 | Some _ \<Rightarrow> Suc 0)") auto

declare create_capture.simps [simp del]

section \<open>Consumers and test environments\<close>

text \<open>
  The consuming loop of lines 224-226 on one synthetic source: \<open>n\<close> calls of \<open>read\<close>, each
  giving its flag and the frame as it is when the call returns.
\<close>

fun reads :: "env \<Rightarrow> nat \<Rightarrow> generator \<Rightarrow> world \<Rightarrow> pyerr + (bool \<times> image) list \<times> generator \<times> world" where
  "reads e 0 g w = Inr ([], g, w)"
| "reads e (Suc n) g w =
     bind_err (read e g w) (\<lambda>(ok, a, g1, w1).
     bind_err (reads e n g1 w1) (\<lambda>(frames, g2, w2).
       Inr ((ok, heap w1 ! a) # frames, g2, w2)))"

text \<open>\<open>n\<close> calls of \<open>Chess.render\<close> on the same buffer.\<close>

fun Chess_renders :: "env \<Rightarrow> nat \<Rightarrow> chess \<Rightarrow> addr \<Rightarrow> world \<Rightarrow> pyerr + chess \<times> world" where
  "Chess_renders e 0 c dst w = Inr (c, w)"
| "Chess_renders e (Suc n) c dst w =
     bind_err (Chess_render e c dst w) (\<lambda>(c1, w1). Chess_renders e n c1 dst w1)"

text \<open>The stored time after \<open>n\<close> calls of \<open>render\<close> that started at time \<open>x\<close>.\<close>

fun time_after :: "nat \<Rightarrow> real \<Rightarrow> real" where
  "time_after 0 x = x"
| "time_after (Suc n) x = time_after n (float_add x (float_div 1 30))"



text \<open>
  An environment with no readable file, no camera and no scene engine, whose look-at helper
  hands back the target position as translation, and an empty store.
\<close>

definition bare_env :: env where
  "bare_env =
     \<lparr>imread = (\<lambda>p. None), resize_pix = (\<lambda>im w h r c k. 0), py_float = (\<lambda>s. None),
      randn = (\<lambda>n sigma r c k. 0), lookat = (\<lambda>eye target. (((1, 0, 0), (0, 1, 0), (0, 0, 1)), target)),
      mtx2rvec = (\<lambda>R. (0, 0, 0)), projectPoint = (\<lambda>p rv tv k d. (0, 0)),
      fillConvexPoly = (\<lambda>im pts col. pix im), video_opens = (\<lambda>s. False),
      TestSceneRender = (\<lambda>b f d. Inl CvError), getNextFrame = (\<lambda>en. Inl CvError)\<rparr>"

definition world0 :: world where
  "world0 = \<lparr>heap = [], draws = 0, stdout = []\<rparr>"

text \<open>
  An environment with two image files, \<open>../data/lena.jpg\<close> of 2 by 2 pixels and
  \<open>../data/graf1.png\<close> of 4 by 3, and a scene engine that keeps the background it is given
  and shows it as every frame.
\<close>

definition studio_env :: env where
  "studio_env =
     bare_env
       \<lparr>imread := (\<lambda>p. if p = ''../data/lena.jpg'' then Some (zeros 2 2)
                      else if p = ''../data/graf1.png'' then Some (zeros 3 4) else None),
        resize_pix := (\<lambda>im w h. pix im),
        py_float := (\<lambda>s. if s = ''0.1'' then Some (1 / 10) else if s = ''0.0'' then Some 0 else None),
        TestSceneRender := (\<lambda>b f d. case b of None \<Rightarrow> Inl TypeError | Some im \<Rightarrow> Inr \<lparr>sceneBg = im, anim = 0\<rparr>),
        getNextFrame := (\<lambda>en. Inr (sceneBg en, en\<lparr>anim := anim en + 1\<rparr>))\<rparr>"

section \<open>Notions used in the properties\<close>

text \<open>A store step that writes pixels of the array at \<open>a\<close> only: every shape and every other array is kept.\<close>

definition touches_only :: "addr \<Rightarrow> world \<Rightarrow> world \<Rightarrow> bool" where
  "touches_only a w w' =
     (length (heap w') = length (heap w) \<and> draws w' = draws w \<and> stdout w' = stdout w
      \<and> (\<forall>i. rows (heap w' ! i) = rows (heap w ! i) \<and> cols (heap w' ! i) = cols (heap w ! i))
      \<and> (\<forall>i. i \<noteq> a \<longrightarrow> heap w' ! i = heap w ! i))"

text \<open>The pose \<open>(rvec, tvec)\<close> of a frame whose geometry is computed at time \<open>tm\<close> (lines 142-151).\<close>

definition pose_at :: "env \<Rightarrow> nat \<times> nat \<Rightarrow> real \<Rightarrow> vec3 \<times> vec3" where
  "pose_at e grid tm =
     (let (phi, ofs, eye_pos, target_pos) = camera grid tm;
          (R, tv) = lookat e eye_pos target_pos
      in (mtx2rvec e R, tv))"

text \<open>
  The state of a base or chess generator after its constructor and after reads: a frame
  size that is not negative, if there is a background, one of that size in the store, and
  for a chess generator a time that is a double and not negative.
\<close>

definition sound :: "generator \<Rightarrow> world \<Rightarrow> bool" where
  "sound g w =
     (0 \<le> fst (frame_size g) \<and> 0 \<le> snd (frame_size g)
      \<and> (case variant g of
            VBase \<Rightarrow> True
          | VChess c \<Rightarrow> 0 \<le> t c \<and> to_double (t c) = t c
          | VBook en \<Rightarrow> False
          | VCube en \<Rightarrow> False)
      \<and> (case bg g of
            None \<Rightarrow> True
          | Some b \<Rightarrow> b < length (heap w) \<and> rows (heap w ! b) = nat (snd (frame_size g))
                        \<and> cols (heap w ! b) = nat (fst (frame_size g))))"

text \<open>The image a frame starts from (lines 69-72).\<close>

definition base_image :: "generator \<Rightarrow> world \<Rightarrow> image" where
  "base_image g w =
     (case bg g of
        None \<Rightarrow> zeros (nat (snd (frame_size g))) (nat (fst (frame_size g)))
      | Some b \<Rightarrow> heap w ! b)"

text \<open>The attributes after one \<open>render\<close>: only a chess generator changes, in time and pose.\<close>

definition advance :: "env \<Rightarrow> generator \<Rightarrow> generator" where
  "advance e g =
     (case variant g of
        VChess c \<Rightarrow> g\<lparr>variant := VChess (c\<lparr>t := float_add (t c) (float_div 1 30),
                          tvec := Some (snd (pose_at e (grid_size c) (t c))),
                          rvec := Some (fst (pose_at e (grid_size c) (t c)))\<rparr>)\<rparr>
      | _ \<Rightarrow> g)"


section \<open>Descriptor parsing\<close>

lemma split_nonempty: "split sep s \<noteq> []"
  by (induction s) (auto split: list.splits)

lemma split_no_sep: "sep \<notin> set s \<Longrightarrow> split sep s = [s]"
  by (induction s) auto

lemma split_prefix: "sep \<notin> set xs \<Longrightarrow> split sep (xs @ sep # ys) = xs # split sep ys"
  by (induction xs) auto

lemma split_snoc_sep: "split sep (xs @ [sep]) = split sep xs @ [[]]"
  by (induction xs) (auto split: list.splits simp: split_nonempty)

lemmas str_defs = strip_def isspace_def isalpha_def isalpha_char_def isdigit_def digit_def
  py_int_def int_body_def chunks_of_def drive_letter_def source_of_def parse_descriptor_def bind_err_def

lemma build_params_bad:
  "tok \<in> set toks \<Longrightarrow> CHR ''='' \<notin> set tok \<Longrightarrow> build_params toks m = Inl ValueError"
proof (induction toks arbitrary: m)
  case Nil
  then show ?case by simp
next
  case (Cons s ss)
  show ?case
  proof (cases "tok = s")
    case True
    with Cons.prems show ?thesis by (simp add: split_no_sep)
  next
    case False
    with Cons.prems have "tok \<in> set ss" by simp
    with Cons show ?thesis by (auto split: list.splits)
  qed
qed

lemma bad_token_raises:
  assumes "tok \<in> set (tl (chunks_of (strip d)))" "CHR ''='' \<notin> set tok"
  shows "create_capture e d fb w = Inl ValueError"
proof -
  have "build_params (tl (chunks_of (strip d))) Map.empty = Inl ValueError"
    using assms build_params_bad by blast
  then have "parse_descriptor d = Inl ValueError"
    by (simp add: parse_descriptor_def bind_err_def Let_def)
  then have "attempt e d w = Inl ValueError"
    by (simp add: attempt_def bind_err_def)
  then show ?thesis
    by (simp add: create_capture.simps)
qed

lemma alpha_not_special:
  "isalpha_char c \<Longrightarrow> \<not> isspace c \<and> \<not> isdigit c \<and> c \<noteq> CHR ''-'' \<and> c \<noteq> CHR ''+''"
  by (auto simp: isalpha_char_def isspace_def isdigit_def Let_def)

lemma strip_Cons_nonspace: "\<not> isspace c \<Longrightarrow> strip (c # s) = c # rev (dropWhile isspace (rev s))"
  by (simp add: strip_def dropWhile_append3)

lemma py_int_alpha: "isalpha_char c \<Longrightarrow> py_int (c # s) = None"
  using alpha_not_special [of c]
  by (simp add: py_int_def strip_Cons_nonspace int_body_def)

lemma split_first:
  "split sep s = tok # toks \<Longrightarrow> toks \<noteq> [] \<Longrightarrow> \<exists>rest. s = tok @ sep # rest \<and> split sep rest = toks"
proof (induction s arbitrary: tok)
  case Nil
  then show ?case by simp
next
  case (Cons c cs)
  show ?case
  proof (cases "c = sep")
    case True
    with Cons.prems show ?thesis by simp
  next
    case False
    obtain t0 ts where r: "split sep cs = t0 # ts"
      using split_nonempty [of sep cs] by (cases "split sep cs") auto
    with False Cons.prems have e: "tok = c # t0" "toks = ts" by simp_all
    with r have "split sep cs = t0 # toks" by simp
    from Cons.IH [OF this Cons.prems(2)] e show ?thesis by auto
  qed
qed

text \<open>
  Claim C7. When the first colon-separated token of a descriptor is exactly one alphabetic
  character and a second token exists, the same holds once the descriptor is stripped, and
  the first two tokens are merged back into one token, which is a path (never a device
  index, never \<open>synth\<close>); the tokens after it are the parameters. Stripping changes the
  other tokens only if the descriptor ends in whitespace. In particular
  \<open>c:path/to/video.mp4\<close> parses to the single path token \<open>c:path/to/video.mp4\<close> with
  no parameter.
\<close>

theorem drive_letter_merge:
  assumes "split CHR '':'' d = tok0 # tok1 # toks" and "length tok0 = 1" and "isalpha tok0"
  shows "(\<exists>tok1' toks'.
            split CHR '':'' (strip d) = tok0 # tok1' # toks'
            \<and> (strip d = d \<longrightarrow> tok1' = tok1 \<and> toks' = toks)
            \<and> chunks_of (strip d) = (tok0 @ '':'' @ tok1') # toks'
            \<and> parse_descriptor d =
                bind_err (build_params toks' Map.empty) (\<lambda>params. Inr (Name (tok0 @ '':'' @ tok1'), params)))
     \<and> parse_descriptor ''c:path/to/video.mp4'' = Inr (Name ''c:path/to/video.mp4'', Map.empty)"
proof -
  from assms obtain c where c: "tok0 = [c]" "isalpha_char c"
    by (cases tok0) (auto simp: isalpha_def)
  from split_first [OF assms(1)] c obtain rest where d: "d = c # CHR '':'' # rest"
    by auto
  have ns: "\<not> isspace c" "\<not> isspace CHR '':''"
    using alpha_not_special [OF c(2)] by (simp_all add: isspace_def)
  define rest' where "rest' = rev (dropWhile isspace (rev rest))"
  have st: "strip d = c # CHR '':'' # rest'"
    using ns by (simp add: d strip_Cons_nonspace dropWhile_append3 rest'_def)
  obtain tok1' toks' where r: "split CHR '':'' rest' = tok1' # toks'"
    using split_nonempty [of "CHR '':''" rest'] by (cases "split CHR '':'' rest'") auto
  have cc: "c \<noteq> CHR '':''"
    using c(2) by (auto simp: isalpha_char_def Let_def)
  have sp: "split CHR '':'' (strip d) = tok0 # tok1' # toks'"
    using cc by (simp add: st r c(1))
  have same: "strip d = d \<longrightarrow> tok1' = tok1 \<and> toks' = toks"
    using sp assms(1) by auto
  have ch: "chunks_of (strip d) = (tok0 @ '':'' @ tok1') # toks'"
    using sp assms(2,3) by (simp add: chunks_of_def drive_letter_def)
  have "source_of (tok0 @ '':'' @ tok1') = Name (tok0 @ '':'' @ tok1')"
    using c by (simp add: source_of_def py_int_alpha)
  with ch have pd: "parse_descriptor d =
         bind_err (build_params toks' Map.empty) (\<lambda>params. Inr (Name (tok0 @ '':'' @ tok1'), params))"
    by (simp add: parse_descriptor_def)
  have "parse_descriptor ''c:path/to/video.mp4'' = Inr (Name ''c:path/to/video.mp4'', Map.empty)"
    by (simp add: str_defs)
  with sp same ch pd show ?thesis by blast
qed

theorem drive_letter_merge_witness:
  "split CHR '':'' ''d:clips/a.avi:size=4x3'' = ''d'' # ''clips/a.avi'' # [''size=4x3'']
   \<and> length ''d'' = 1 \<and> isalpha ''d''
   \<and> strip ''d:clips/a.avi:size=4x3'' = ''d:clips/a.avi:size=4x3''
   \<and> chunks_of (strip ''d:clips/a.avi:size=4x3'') = [''d:clips/a.avi'', ''size=4x3'']
   \<and> parse_descriptor ''d:clips/a.avi:size=4x3'' = Inr (Name ''d:clips/a.avi'', [''size'' \<mapsto> ''4x3''])"
proof -
  have h1: "split CHR '':'' ''d:clips/a.avi:size=4x3'' = ''d'' # ''clips/a.avi'' # [''size=4x3'']"
    by simp
  have h2: "length ''d'' = 1" by simp
  have h3: "isalpha ''d''" by (simp add: isalpha_def isalpha_char_def)
  have h4: "strip ''d:clips/a.avi:size=4x3'' = ''d:clips/a.avi:size=4x3''"
    by (simp add: strip_def isspace_def)
  from drive_letter_merge [OF h1 h2 h3] h4 obtain tok1' toks' where
    "tok1' = ''clips/a.avi'' \<and> toks' = [''size=4x3'']"
    "chunks_of (strip ''d:clips/a.avi:size=4x3'') = (''d'' @ '':'' @ tok1') # toks'"
    "parse_descriptor ''d:clips/a.avi:size=4x3'' =
                bind_err (build_params toks' Map.empty) (\<lambda>params. Inr (Name (''d'' @ '':'' @ tok1'), params))"
    by auto
  then show ?thesis
    using h1 h2 h3 h4 by (simp add: bind_err_def)
qed

text \<open>
  Claim C8. A parameter token (a token after the kind token, the drive letter merged) without
  \<open>=\<close> makes \<open>create_capture\<close> raise \<open>ValueError\<close> whatever the fallback is, so no source
  is built from the descriptor; a \<open>class\<close> name outside the registry selects the base
  generator.
\<close>

theorem malformed_parameter_raises:
  "(tok \<in> set (tl (chunks_of (strip d))) \<and> CHR ''='' \<notin> set tok \<longrightarrow> create_capture e d fb w = Inl ValueError)
   \<and> (params ''class'' = Some n \<and> n \<notin> {''chess'', ''book'', ''cube''} \<longrightarrow>
        construct e (class_of params) params w = VideoSynthBase_init e params w)"
  using bad_token_raises [of tok d e fb w]
  by (auto simp: class_of_def classes_def construct_def)

theorem malformed_parameter_raises_witness:
  "''noise'' \<in> set (tl (chunks_of (strip ''synth:noise:size=4x3''))) \<and> CHR ''='' \<notin> set ''noise''
   \<and> create_capture bare_env ''synth:noise:size=4x3'' (Some ''synth:bg=x.png'') world0 = Inl ValueError
   \<and> [''class'' \<mapsto> ''chesss''] ''class'' = Some ''chesss'' \<and> ''chesss'' \<notin> {''chess'', ''book'', ''cube''}
   \<and> construct bare_env (class_of [''class'' \<mapsto> ''chesss'']) [''class'' \<mapsto> ''chesss''] world0
       = VideoSynthBase_init bare_env [''class'' \<mapsto> ''chesss''] world0"
proof -
  have h1: "''noise'' \<in> set (tl (chunks_of (strip ''synth:noise:size=4x3'')))"
    by (simp add: str_defs)
  have h2: "CHR ''='' \<notin> set ''noise''" by simp
  have h3: "[''class'' \<mapsto> ''chesss''] ''class'' = Some ''chesss'' \<and> ''chesss'' \<notin> {''chess'', ''book'', ''cube''}"
    by simp
  show ?thesis
    using malformed_parameter_raises [of "''noise''" "''synth:noise:size=4x3''" bare_env "Some ''synth:bg=x.png''" world0
        "[''class'' \<mapsto> ''chesss'']" "''chesss''"] h1 h2 h3
    by blast
qed

lemmas open_defs = attempt_def open_source_def class_of_def classes_def construct_def Chess_init_def
  Book_init_def Cube_init_def VideoSynthBase_init_def load_bg_def apply_size_def parse_size_def
  parse_noise_def cv_resize_def cv_imread_def unopened_def isOpened_def isOpened_synth_def

text \<open>
  Claim C2. In every environment the descriptor \<open>synth:class=chess:size=320x240:noise=0.1\<close>
  with no fallback yields no source at all: line 59 resizes a background that does not exist,
  the constructor raises, line 195 swallows the exception and \<open>None\<close> is returned after the
  warning.
\<close>

theorem chess_320x240_not_opened:
  "create_capture e ''synth:class=chess:size=320x240:noise=0.1'' None w = Inr (None, warn (Name ''synth'') w)"
  by (simp add: create_capture.simps str_defs open_defs)

lemma strip_snoc_colon: "strip (d @ '':'') = dropWhile isspace d @ '':''"
proof -
  have ns: "\<not> isspace CHR '':''" by (simp add: isspace_def)
  have "dropWhile isspace (d @ '':'') = dropWhile isspace d @ '':''"
    using ns by (induction d) auto
  then show ?thesis using ns by (simp add: strip_def)
qed

text \<open>
  The descriptor \<open>c:\<close> ends in a colon, yet the drive-letter rule merges its two tokens
  into the single path \<open>c:\<close>: there is no parameter token, nothing is raised and a (closed)
  capture is returned.
\<close>

theorem empty_token_counterexample:
  "create_capture bare_env ''c:'' None world0
     = Inr (Some (Video \<lparr>cap_source = Name ''c:'', opened = False, props = []\<rparr>), warn (Name ''c:'') world0)"
  by (simp add: create_capture.simps str_defs open_defs bare_env_def)

text \<open>
  Claim C10, amended. An empty token among the parameter tokens makes \<open>create_capture\<close>
  raise \<open>ValueError\<close> instead of returning a source; so does every descriptor that ends in a
  colon, unless it is, once stripped, a single alphabetic character followed by the colon.
  The preset \<open>empty\<close> is \<open>synth:\<close> and raises.
\<close>

theorem empty_token_raises:
  "([] \<in> set (tl (chunks_of (strip d))) \<longrightarrow> create_capture e d fb w = Inl ValueError)
   \<and> (\<not> (\<exists>c. isalpha_char c \<and> strip (d @ '':'') = [c, CHR '':'']) \<longrightarrow>
        create_capture e (d @ '':'') fb w = Inl ValueError)
   \<and> presets ''empty'' = Some ''synth:''
   \<and> create_capture e ''synth:'' fb w = Inl ValueError"
proof -
  have a: "[] \<in> set (tl (chunks_of (strip x))) \<Longrightarrow> create_capture e x fb w = Inl ValueError" for x
    using bad_token_raises [of "[]" x e fb w] by simp
  have b: "create_capture e (d @ '':'') fb w = Inl ValueError"
    if nd: "\<not> (\<exists>c. isalpha_char c \<and> strip (d @ '':'') = [c, CHR '':''])"
  proof -
    define s where "s = dropWhile isspace d"
    have st: "strip (d @ '':'') = s @ '':''" by (simp add: strip_snoc_colon s_def)
    have sp: "split CHR '':'' (s @ '':'') = split CHR '':'' s @ [[]]" by (rule split_snoc_sep)
    obtain t0 ts where ts: "split CHR '':'' s = t0 # ts"
      using split_nonempty [of "CHR '':''" s] by (cases "split CHR '':'' s") auto
    have "[] \<in> set (tl (chunks_of (s @ '':'')))"
    proof (cases "drive_letter (split CHR '':'' (s @ '':''))")
      case False
      then show ?thesis by (simp add: chunks_of_def sp ts)
    next
      case True
      show ?thesis
      proof (cases ts)
        case (Cons t1 ts')
        then show ?thesis using True by (simp add: chunks_of_def sp ts)
      next
        case Nil
        with True ts sp obtain c where c: "t0 = [c]" "isalpha_char c"
          by (cases t0) (auto simp: drive_letter_def isalpha_def)
        have "CHR '':'' \<notin> set s"
        proof
          assume "CHR '':'' \<in> set s"
          then obtain xs ys where "s = xs @ CHR '':'' # ys" "CHR '':'' \<notin> set xs"
            by (meson split_list_first)
          then have "split CHR '':'' s = xs # split CHR '':'' ys" by (simp add: split_prefix)
          with ts Nil split_nonempty [of "CHR '':''" ys] show False by simp
        qed
        then have "s = t0" using ts by (simp add: split_no_sep)
        with c st nd show ?thesis by simp
      qed
    qed
    then show ?thesis using a [of "d @ '':''"] st by simp
  qed
  have c: "presets ''empty'' = Some ''synth:''" by (simp add: presets_def)
  have d: "create_capture e ''synth:'' fb w = Inl ValueError"
    by (rule a) (simp add: str_defs)
  from a [of d] b c d show ?thesis by blast
qed

theorem empty_token_raises_witness:
  "[] \<in> set (tl (chunks_of (strip ''0::size=4x3'')))
   \<and> create_capture bare_env ''0::size=4x3'' None world0 = Inl ValueError
   \<and> \<not> (\<exists>c. isalpha_char c \<and> strip (''a:b'' @ '':'') = [c, CHR '':''])
   \<and> create_capture bare_env (''a:b'' @ '':'') None world0 = Inl ValueError"
proof -
  have h1: "[] \<in> set (tl (chunks_of (strip ''0::size=4x3'')))" by (simp add: str_defs)
  have h2: "\<not> (\<exists>c. isalpha_char c \<and> strip (''a:b'' @ '':'') = [c, CHR '':''])"
    by (simp add: strip_def isspace_def)
  show ?thesis
    using empty_token_raises [of "''0::size=4x3''" bare_env None world0]
      empty_token_raises [of "''a:b''" bare_env None world0] h1 h2
    by blast
qed

section \<open>Floating-point time\<close>

lemma round_even_bounds:
  "\<lfloor>x\<rfloor> \<le> round_even x" "round_even x \<le> \<lfloor>x\<rfloor> + 1"
  "x - 1 / 2 \<le> of_int (round_even x)" "of_int (round_even x) \<le> x + 1 / 2"
  by (auto simp: round_even_def Let_def) linarith+

lemma round_even_int [simp]: "round_even (of_int m) = m"
  by (simp add: round_even_def)

lemma ulp_pos [simp]: "0 < ulp v"
  by (simp add: ulp_def)

lemma expo_bounds:
  assumes "0 < v"
  shows "2 powr of_int \<lfloor>log 2 v\<rfloor> \<le> v" "v < 2 powr (of_int \<lfloor>log 2 v\<rfloor> + 1)"
  using floor_log_eq_powr_iff [of v 2 "\<lfloor>log 2 v\<rfloor>"] assms by simp_all

lemma ulp_eq: "0 < v \<Longrightarrow> ulp v = 2 powr of_int \<lfloor>log 2 v\<rfloor> / 2 ^ 52"
  by (simp add: ulp_def powr_diff)

lemma scaled_bounds:
  assumes "0 < v"
  shows "2 ^ 52 \<le> v / ulp v" "v / ulp v < 2 ^ 53"
proof -
  define p :: real where "p = 2 powr of_int \<lfloor>log 2 v\<rfloor>"
  have p: "0 < p" by (simp add: p_def)
  have e: "v / ulp v = v / p * 2 ^ 52"
    using assms by (simp add: ulp_eq p_def)
  have "p \<le> v" using expo_bounds(1) [OF assms] by (simp add: p_def)
  then have "1 \<le> v / p" using p by (simp add: le_divide_eq)
  then have "1 * 2 ^ 52 \<le> v / p * 2 ^ 52" by (rule mult_right_mono) simp
  then show "2 ^ 52 \<le> v / ulp v" unfolding e by simp
  have "v < p * 2" using expo_bounds(2) [OF assms] by (simp add: powr_add p_def)
  then have "v / p < 2" using p by (simp add: divide_less_eq mult.commute)
  then have "v / p * 2 ^ 52 < 2 * 2 ^ 52" by (rule mult_strict_right_mono) simp
  then show "v / ulp v < 2 ^ 53" unfolding e by simp
qed

lemma to_double_pos: "0 < v \<Longrightarrow> to_double v = of_int (round_even (v / ulp v)) * ulp v"
  by (simp add: to_double_def)

lemma to_double_near:
  assumes "0 < v"
  shows "v - ulp v / 2 \<le> to_double v" "to_double v \<le> v + ulp v / 2"
proof -
  define u where "u = ulp v"
  define q where "q = v / u"
  define m :: real where "m = of_int (round_even q)"
  have u: "0 < u" by (simp add: u_def)
  have v: "v = q * u" using u by (simp add: q_def)
  have td: "to_double v = m * u"
    using assms by (simp add: to_double_pos m_def q_def u_def)
  have "q - 1 / 2 \<le> m" unfolding m_def by (rule round_even_bounds)
  then have "(q - 1 / 2) * u \<le> m * u" using u by (simp only: mult_le_cancel_right_pos)
  then have "q * u - u / 2 \<le> m * u" by (simp add: algebra_simps)
  then show "v - ulp v / 2 \<le> to_double v"
    by (simp only: td v [symmetric] u_def [symmetric])
  have "m \<le> q + 1 / 2" unfolding m_def by (rule round_even_bounds)
  then have "m * u \<le> (q + 1 / 2) * u" using u by (simp only: mult_le_cancel_right_pos)
  then have "m * u \<le> q * u + u / 2" by (simp add: algebra_simps)
  then show "to_double v \<le> v + ulp v / 2"
    by (simp only: td v [symmetric] u_def [symmetric])
qed

lemma to_double_ge_pow:
  assumes "0 < v"
  shows "2 powr of_int \<lfloor>log 2 v\<rfloor> \<le> to_double v"
proof -
  have "(2::real) ^ 52 \<le> of_int \<lfloor>v / ulp v\<rfloor>"
    using scaled_bounds(1) [OF assms] by (simp add: le_floor_iff)
  also have "\<dots> \<le> of_int (round_even (v / ulp v))"
    using round_even_bounds(1) [of "v / ulp v"] by simp
  finally have "2 ^ 52 * ulp v \<le> of_int (round_even (v / ulp v)) * ulp v"
    by (simp only: mult_le_cancel_right_pos ulp_pos)
  moreover have "2 ^ 52 * ulp v = 2 powr of_int \<lfloor>log 2 v\<rfloor>"
    using assms by (simp add: ulp_eq)
  ultimately show ?thesis
    using assms by (simp only: to_double_pos)
qed


lemma floor_log_neg:
  assumes "0 < v" "1 \<le> v * 2 ^ k" "v * 2 ^ k < 2"
  shows "\<lfloor>log 2 v\<rfloor> = - int k"
proof -
  have p: "2 powr of_int (- int k) = 1 / (2 ^ k :: real)"
    by (simp add: powr_minus powr_realpow field_simps)
  have "2 powr of_int (- int k) \<le> v"
    using assms(2) unfolding p by (simp add: field_simps)
  moreover have "v < 2 powr (of_int (- int k) + 1)"
    using assms(3) by (simp only: powr_add p) (simp add: field_simps)
  ultimately show ?thesis
    using floor_log_eq_powr_iff [of v 2 "- int k"] assms(1) by simp
qed

lemma to_double_eval:
  assumes "0 < v" "1 \<le> v * 2 ^ k" "v * 2 ^ k < 2"
  shows "to_double v = of_int (round_even (v * 2 ^ (k + 52))) / 2 ^ (k + 52)"
proof -
  have "ulp v = 2 powr of_int (- int k) / 2 ^ 52"
    using assms by (simp only: ulp_eq floor_log_neg [OF assms])
  also have "\<dots> = 1 / 2 ^ (k + 52)"
    by (simp add: powr_minus powr_realpow power_add field_simps)
  finally have u: "ulp v = 1 / 2 ^ (k + 52)" .
  show ?thesis
    using assms(1) by (simp only: to_double_pos u) simp
qed

lemma to_double_zero [simp]: "to_double 0 = 0"
  by (simp add: to_double_def)

lemma to_double_grows:
  assumes "0 \<le> x" and "x < 2 ^ 47" and "1 / 32 \<le> s" and "s \<le> 1"
  shows "x < to_double (x + s)"
proof -
  let ?v = "x + s"
  have v: "0 < ?v" using assms by simp
  have lt: "?v < 2 powr 48" using assms by simp
  have "log 2 ?v < 48"
    using log_less_iff [of 2 ?v 48] v lt by simp
  then have "\<lfloor>log 2 ?v\<rfloor> \<le> 47" by linarith
  then have "of_int \<lfloor>log 2 \<bar>?v\<bar>\<rfloor> - 52 \<le> (- 5 :: real)" using v by simp
  then have "ulp ?v \<le> 2 powr (- 5)"
    unfolding ulp_def by (rule powr_mono) simp
  also have "\<dots> = 1 / 32" by (simp add: powr_minus field_simps)
  finally have "ulp ?v \<le> 1 / 32" .
  with to_double_near(1) [OF v] assms show ?thesis by simp
qed

lemma round_even_range:
  assumes "0 < v"
  shows "2 ^ 52 \<le> round_even (v / ulp v)" "round_even (v / ulp v) \<le> 2 ^ 53"
proof -
  have "(2::int) ^ 52 \<le> \<lfloor>v / ulp v\<rfloor>"
    using scaled_bounds(1) [OF assms] le_floor_iff [of "2 ^ 52" "v / ulp v"] by simp
  then show "2 ^ 52 \<le> round_even (v / ulp v)"
    using round_even_bounds(1) [of "v / ulp v"] by (rule order_trans)
  have "\<lfloor>v / ulp v\<rfloor> < (2::int) ^ 53"
    using scaled_bounds(2) [OF assms] floor_less_iff [of "v / ulp v" "2 ^ 53"] by simp
  then have "\<lfloor>v / ulp v\<rfloor> + 1 \<le> (2::int) ^ 53" by linarith
  with round_even_bounds(2) [of "v / ulp v"] show "round_even (v / ulp v) \<le> 2 ^ 53"
    by (rule order_trans)
qed


lemma to_double_repr:
  assumes "2 ^ 52 \<le> m" "m < 2 ^ 53"
  shows "to_double (of_int m * (2 powr of_int e / 2 ^ 52)) = of_int m * (2 powr of_int e / 2 ^ 52)"
proof -
  define p :: real where "p = 2 powr of_int e"
  define y where "y = of_int m * (p / 2 ^ 52)"
  have p: "0 < p" by (simp add: p_def)
  have m1: "(2::real) ^ 52 \<le> of_int m" using assms(1) by (metis of_int_le_iff of_int_numeral of_int_power)
  have m2: "of_int m < (2::real) ^ 53" using assms(2) by (metis of_int_less_iff of_int_numeral of_int_power)
  have y: "0 < y" using p m1 by (simp add: y_def)
  have "p * 2 ^ 52 \<le> p * of_int m" using m1 p by (simp only: mult_le_cancel_left_pos)
  then have lo: "p \<le> y" by (simp add: y_def field_simps)
  have "p * of_int m < p * 2 ^ 53" using m2 p by (simp only: mult_less_cancel_left_pos)
  then have hi: "y < p * 2" by (simp add: y_def field_simps)
  have "\<lfloor>log 2 y\<rfloor> = e"
    using floor_log_eq_powr_iff [of y 2 e] y lo hi by (simp add: p_def powr_add)
  then have u: "ulp y = p / 2 ^ 52" using y by (simp add: ulp_eq p_def)
  have "y / (p / 2 ^ 52) = of_int m" using p by (simp add: y_def)
  then have "y / ulp y = of_int m" by (simp only: u)
  then have "to_double y = of_int m * ulp y" using y by (simp add: to_double_pos)
  then have "to_double y = of_int m * (p / 2 ^ 52)" unfolding u .
  then have "to_double y = y" unfolding y_def [symmetric] .
  then show ?thesis unfolding y_def p_def .
qed

lemma to_double_idem:
  assumes "0 < v"
  shows "to_double (to_double v) = to_double v"
proof -
  define e where "e = \<lfloor>log 2 v\<rfloor>"
  define m where "m = round_even (v / ulp v)"
  have td: "to_double v = of_int m * (2 powr of_int e / 2 ^ 52)"
    using assms by (simp add: to_double_pos ulp_eq m_def e_def)
  have r: "2 ^ 52 \<le> m" "m \<le> 2 ^ 53"
    unfolding m_def by (rule round_even_range [OF assms])+
  show ?thesis
  proof (cases "m < 2 ^ 53")
    case True
    from to_double_repr [OF r(1) True, of e] show ?thesis by (simp only: td)
  next
    case False
    with r have m: "m = 2 ^ 53" by simp
    have "to_double v = of_int (2 ^ 52) * (2 powr of_int (e + 1) / 2 ^ 52)"
      by (simp add: td m powr_add)
    moreover have "to_double (of_int (2 ^ 52) * (2 powr of_int (e + 1) / 2 ^ 52))
        = of_int (2 ^ 52) * (2 powr of_int (e + 1) / 2 ^ 52)"
      by (rule to_double_repr) simp_all
    ultimately show ?thesis by (simp only:)
  qed
qed

lemma to_double_mono_step:
  assumes "0 \<le> x" and "to_double x = x" and "0 < s"
  shows "x \<le> to_double (x + s)"
proof (cases "x = 0")
  case True
  have "(0::real) < 2 powr of_int \<lfloor>log 2 s\<rfloor>" by simp
  also have "\<dots> \<le> to_double s" by (rule to_double_ge_pow [OF assms(3)])
  finally show ?thesis using True by simp
next
  case False
  with assms have x: "0 < x" by simp
  let ?v = "x + s"
  have v: "0 < ?v" using x assms by simp
  have "log 2 x \<le> log 2 ?v" using x assms(3) by simp
  then have le: "\<lfloor>log 2 x\<rfloor> \<le> \<lfloor>log 2 ?v\<rfloor>" by (rule floor_mono)
  show ?thesis
  proof (cases "\<lfloor>log 2 x\<rfloor> = \<lfloor>log 2 ?v\<rfloor>")
    case True
    then have u: "ulp ?v = ulp x" using x v by (simp add: ulp_def)
    define mx where "mx = round_even (x / ulp x)"
    have xe: "x = of_int mx * ulp x"
      using assms(2) x by (simp add: to_double_pos mx_def)
    then have "x / ulp x = of_int mx"
      by (metis nonzero_mult_div_cancel_right ulp_pos less_irrefl)
    moreover have "x / ulp x \<le> ?v / ulp x"
      using assms(3) by (intro divide_right_mono) (simp_all add: less_imp_le)
    ultimately have "of_int mx \<le> ?v / ulp x" by simp
    then have "mx \<le> \<lfloor>?v / ulp x\<rfloor>" by (simp add: le_floor_iff)
    also have "\<dots> \<le> round_even (?v / ulp x)" by (rule round_even_bounds)
    finally have "of_int mx * ulp x \<le> of_int (round_even (?v / ulp x)) * ulp x"
      by (simp only: mult_le_cancel_right_pos ulp_pos of_int_le_iff)
    then show ?thesis
      using v xe by (simp only: to_double_pos u)
  next
    case False
    with le have "\<lfloor>log 2 x\<rfloor> + 1 \<le> \<lfloor>log 2 ?v\<rfloor>" by simp
    then have "(of_int \<lfloor>log 2 x\<rfloor> + 1 :: real) \<le> of_int \<lfloor>log 2 ?v\<rfloor>"
      by (metis of_int_1 of_int_add of_int_le_iff)
    then have "2 powr (of_int \<lfloor>log 2 x\<rfloor> + 1) \<le> (2::real) powr of_int \<lfloor>log 2 ?v\<rfloor>"
      by (rule powr_mono) simp
    with expo_bounds(2) [OF x] to_double_ge_pow [OF v] show ?thesis by linarith
  qed
qed

lemma thirtieth: "float_div 1 30 = 4803839602528529 / 2 ^ 57"
proof -
  have "to_double (1 / 30) = of_int (round_even ((1 / 30) * 2 ^ (5 + 52))) / 2 ^ (5 + 52)"
    by (rule to_double_eval) simp_all
  also have "round_even ((1 / 30) * 2 ^ (5 + 52)) = 4803839602528529"
    by (simp add: round_even_def)
  finally show ?thesis by (simp add: float_div_def)
qed

lemma thirtieth_bounds: "1 / 32 \<le> float_div 1 30" "float_div 1 30 \<le> 1" "0 < float_div 1 30"
  by (simp_all add: thirtieth)

lemma time_step:
  assumes "0 \<le> x" and "to_double x = x"
  shows "x \<le> float_add x (float_div 1 30)"
    and "0 \<le> float_add x (float_div 1 30)"
    and "to_double (float_add x (float_div 1 30)) = float_add x (float_div 1 30)"
    and "x < 2 ^ 47 \<Longrightarrow> x < float_add x (float_div 1 30)"
proof -
  show 1: "x \<le> float_add x (float_div 1 30)"
    unfolding float_add_def by (rule to_double_mono_step [OF assms thirtieth_bounds(3)])
  with assms(1) show "0 \<le> float_add x (float_div 1 30)" by simp
  have "0 < x + float_div 1 30" using assms(1) thirtieth_bounds(3) by simp
  then show "to_double (float_add x (float_div 1 30)) = float_add x (float_div 1 30)"
    unfolding float_add_def by (rule to_double_idem)
  show "x < float_add x (float_div 1 30)" if "x < 2 ^ 47"
    unfolding float_add_def by (rule to_double_grows [OF assms(1) that thirtieth_bounds(1,2)])
qed

lemma time_after_Suc: "time_after (Suc n) x = float_add (time_after n x) (float_div 1 30)"
  by (induction n arbitrary: x) simp_all

section \<open>Rendering and reading\<close>

lemma touches_only_refl: "touches_only a w w"
  by (simp add: touches_only_def)

lemma touches_only_trans: "touches_only a w w1 \<Longrightarrow> touches_only a w1 w2 \<Longrightarrow> touches_only a w w2"
  by (simp add: touches_only_def)

lemma fill_poly_touches: "touches_only a w (fill_poly e a pts col w)"
proof -
  have "rows ((heap w)[a := (heap w ! a)\<lparr>pix := p\<rparr>] ! i) = rows (heap w ! i)
      \<and> cols ((heap w)[a := (heap w ! a)\<lparr>pix := p\<rparr>] ! i) = cols (heap w ! i)" for i p
    by (cases "i = a"; cases "a < length (heap w)") (simp_all add: list_update_beyond)
  then show ?thesis
    by (simp add: touches_only_def fill_poly_def)
qed

lemma fold_fill_touches:
  "touches_only a w (fold (\<lambda>q. fill_poly e a (f q) col) qs w)"
proof (induction qs arbitrary: w)
  case Nil
  show ?case by (simp add: touches_only_refl)
next
  case (Cons q qs)
  show ?case
    using touches_only_trans [OF fill_poly_touches Cons.IH] by simp
qed

lemma draw_quads_ok:
  assumes "rvec c = Some rv" "tvec c = Some tv"
  shows "\<exists>w'. draw_quads e c a quads col w = Inr w' \<and> touches_only a w w'"
  using assms fold_fill_touches
  by (simp add: draw_quads_def Let_def)

lemma Chess_render_ok:
  "\<exists>w'. Chess_render e c dst w
      = Inr (c\<lparr>t := float_add (t c) (float_div 1 30), tvec := Some (snd (pose_at e (grid_size c) (t c))),
               rvec := Some (fst (pose_at e (grid_size c) (t c)))\<rparr>, w')
     \<and> touches_only dst w w'"
proof -
  define c3 where "c3 = c\<lparr>t := float_add (t c) (float_div 1 30), tvec := Some (snd (pose_at e (grid_size c) (t c))),
               rvec := Some (fst (pose_at e (grid_size c) (t c)))\<rparr>"
  have rv: "rvec c3 = Some (fst (pose_at e (grid_size c) (t c)))"
    and tv: "tvec c3 = Some (snd (pose_at e (grid_size c) (t c)))"
    by (simp_all add: c3_def)
  obtain w1 where w1: "draw_quads e c3 dst (white_quads c3) (245, 245, 245) w = Inr w1" "touches_only dst w w1"
    using draw_quads_ok [OF rv tv] by blast
  obtain w2 where w2: "draw_quads e c3 dst (black_quads c3) (10, 10, 10) w1 = Inr w2" "touches_only dst w1 w2"
    using draw_quads_ok [OF rv tv] by blast
  have "Chess_render e c dst w = Inr (c3, w2)"
    using w1(1) w2(1)
    by (simp add: Chess_render_def pose_at_def Let_def bind_err_def c3_def case_prod_beta)
  with touches_only_trans [OF w1(2) w2(2)] show ?thesis
    unfolding c3_def by blast
qed

lemma render_ok:
  assumes "sound g w"
  shows "\<exists>w'. render e g dst w = Inr (advance e g, w') \<and> touches_only dst w w'
            \<and> (variant g = VBase \<longrightarrow> w' = w)"
proof (cases "variant g")
  case VBase
  then show ?thesis by (simp add: render_def advance_def touches_only_refl)
next
  case (VChess c)
  obtain w' where "Chess_render e c dst w
      = Inr (c\<lparr>t := float_add (t c) (float_div 1 30), tvec := Some (snd (pose_at e (grid_size c) (t c))),
               rvec := Some (fst (pose_at e (grid_size c) (t c)))\<rparr>, w')" "touches_only dst w w'"
    using Chess_render_ok by blast
  with VChess show ?thesis by (simp add: render_def advance_def bind_err_def)
next
  case (VBook en)
  with assms show ?thesis by (simp add: sound_def)
next
  case (VCube en)
  with assms show ?thesis by (simp add: sound_def)
qed

lemma advance_fields [simp]:
  "bg (advance e g) = bg g" "frame_size (advance e g) = frame_size g" "noise (advance e g) = noise g"
  by (simp_all add: advance_def split: variant.splits)

lemma sound_advance: "sound g w \<Longrightarrow> sound (advance e g) w"
  by (cases "variant g") (auto simp: sound_def advance_def time_step split: option.splits)

lemma buffer_alloc:
  assumes "sound g w"
  shows "(case bg g of
            None \<Rightarrow> bind_err (check_dims (frame_size g)) (\<lambda>(h, wd). Inr (alloc (zeros h wd) w))
          | Some b \<Rightarrow> Inr (alloc (heap w ! b) w))
         = Inr (length (heap w), w\<lparr>heap := heap w @ [base_image g w]\<rparr>)"
  using assms
  by (cases "bg g") (auto simp: sound_def base_image_def check_dims_def bind_err_def alloc_def)

lemma base_image_dims:
  "sound g w \<Longrightarrow> rows (base_image g w) = nat (snd (frame_size g)) \<and> cols (base_image g w) = nat (fst (frame_size g))"
  by (cases "bg g") (auto simp: sound_def base_image_def zeros_def)

text \<open>What a read of a sound base or chess generator returns.\<close>

lemma read_ok:
  assumes s: "sound g w"
  shows "\<exists>a w'. VideoSynthBase_read e g w = Inr (True, a, advance e g, w')
      \<and> sound (advance e g) w'
      \<and> length (heap w) \<le> a \<and> a < length (heap w')
      \<and> take (length (heap w)) (heap w') = heap w
      \<and> stdout w' = stdout w
      \<and> rows (heap w' ! a) = nat (snd (frame_size g)) \<and> cols (heap w' ! a) = nat (fst (frame_size g))
      \<and> (variant g = VBase \<and> \<not> 0 < noise g \<longrightarrow> heap w' ! a = base_image g w)"
proof -
  let ?n = "length (heap w)"
  let ?w1 = "w\<lparr>heap := heap w @ [base_image g w]\<rparr>"
  have s1: "sound g ?w1"
    using s by (auto simp: sound_def nth_append split: option.splits)
  obtain w2 where r: "render e g ?n ?w1 = Inr (advance e g, w2)" and t: "touches_only ?n ?w1 w2"
    and b: "variant g = VBase \<longrightarrow> w2 = ?w1"
    using render_ok [OF s1] by blast
  have len2: "length (heap w2) = Suc ?n"
    using t by (simp add: touches_only_def)
  have old2: "heap w2 ! i = heap w ! i" if "i < ?n" for i
    using t that by (simp add: touches_only_def nth_append)
  have dims2: "rows (heap w2 ! ?n) = nat (snd (frame_size g)) \<and> cols (heap w2 ! ?n) = nat (fst (frame_size g))"
    using t base_image_dims [OF s] by (simp add: touches_only_def)
  have take2: "take ?n (heap w2) = heap w"
    using len2 old2 by (intro nth_equalityI) simp_all
  have out2: "stdout w2 = stdout w"
    using t by (simp add: touches_only_def)
  have s2: "sound (advance e g) w2"
    using sound_advance [OF s, of e] old2 len2
    by (auto simp: sound_def split: option.splits)
  show ?thesis
  proof (cases "0 < noise g")
    case False
    have "VideoSynthBase_read e g w = Inr (True, ?n, advance e g, w2)"
      using False r by (simp add: VideoSynthBase_read_def buffer_alloc [OF s] bind_err_def)
    moreover have "variant g = VBase \<longrightarrow> heap w2 ! ?n = base_image g w"
      using b by auto
    ultimately show ?thesis
      using s2 len2 take2 out2 dims2 by simp
  next
    case True
    let ?h = "nat (snd (frame_size g))" and ?wd = "nat (fst (frame_size g))"
    let ?nz = "\<lparr>rows = ?h, cols = ?wd, pix = randn e (draws w2) (255 * noise g)\<rparr>"
    let ?w3 = "w2\<lparr>draws := draws w2 + 1\<rparr>"
    let ?sum = "\<lparr>rows = rows (heap w2 ! ?n), cols = cols (heap w2 ! ?n),
                pix = (\<lambda>r c k. saturate (uint (pix (heap w2 ! ?n) r c k) + sint (pix ?nz r c k)))\<rparr>"
    let ?w4 = "?w3\<lparr>heap := heap w2 @ [?sum]\<rparr>"
    have cd: "check_dims (frame_size g) = Inr (?h, ?wd)"
      using s by (simp add: sound_def check_dims_def)
    have add: "cv_add (heap w2 ! ?n) ?nz = Inr ?sum"
      using dims2 by (simp add: cv_add_def)
    have rd: "VideoSynthBase_read e g w = Inr (True, Suc ?n, advance e g, ?w4)"
      using True r cd add len2
      by (simp add: VideoSynthBase_read_def buffer_alloc [OF s] bind_err_def draw_noise_def alloc_def)
    have s4: "sound (advance e g) ?w4"
      using s2 by (auto simp: sound_def nth_append split: option.splits)
    have "take ?n (heap ?w4) = heap w"
      using take2 len2 by simp
    moreover have "rows (heap ?w4 ! Suc ?n) = ?h \<and> cols (heap ?w4 ! Suc ?n) = ?wd"
      using dims2 len2 by (simp add: nth_append)
    ultimately show ?thesis
      using rd s4 len2 out2 True by simp
  qed
qed

lemma Chess_renders_time:
  "\<exists>cn wn. Chess_renders e n c dst w = Inr (cn, wn) \<and> t cn = time_after n (t c) \<and> grid_size cn = grid_size c"
proof (induction n arbitrary: c w)
  case 0
  show ?case by simp
next
  case (Suc n)
  obtain c1 w1 where r: "Chess_render e c dst w = Inr (c1, w1)"
    and c1: "t c1 = float_add (t c) (float_div 1 30)" "grid_size c1 = grid_size c"
    using Chess_render_ok [of e c dst w] by auto
  obtain cn wn where "Chess_renders e n c1 dst w1 = Inr (cn, wn)" "t cn = time_after n (t c1)"
      "grid_size cn = grid_size c1"
    using Suc.IH by blast
  with r c1 show ?case
    by (simp add: bind_err_def)
qed

lemma six_steps: "time_after 6 0 = 7205759403792793 / 2 ^ 55"
proof -
  let ?s = "4803839602528529 / 2 ^ 57 :: real"
  have a1: "float_add 0 ?s = 4803839602528529 / 2 ^ 57"
  proof -
    have "to_double (0 + ?s) = of_int (round_even ((0 + ?s) * 2 ^ (5 + 52))) / 2 ^ (5 + 52)"
      by (rule to_double_eval) simp_all
    also have "round_even ((0 + ?s) * 2 ^ (5 + 52)) = 4803839602528529"
      by (simp add: round_even_def)
    finally show ?thesis by (simp add: float_add_def)
  qed
  have a2: "float_add (4803839602528529 / 2 ^ 57) ?s = 4803839602528529 / 2 ^ 56"
  proof -
    have "to_double (4803839602528529 / 2 ^ 57 + ?s)
        = of_int (round_even ((4803839602528529 / 2 ^ 57 + ?s) * 2 ^ (4 + 52))) / 2 ^ (4 + 52)"
      by (rule to_double_eval) simp_all
    also have "round_even ((4803839602528529 / 2 ^ 57 + ?s) * 2 ^ (4 + 52)) = 4803839602528529"
      by (simp add: round_even_def)
    finally show ?thesis by (simp add: float_add_def)
  qed
  have a3: "float_add (4803839602528529 / 2 ^ 56) ?s = 3602879701896397 / 2 ^ 55"
  proof -
    have "to_double (4803839602528529 / 2 ^ 56 + ?s)
        = of_int (round_even ((4803839602528529 / 2 ^ 56 + ?s) * 2 ^ (4 + 52))) / 2 ^ (4 + 52)"
      by (rule to_double_eval) simp_all
    also have "round_even ((4803839602528529 / 2 ^ 56 + ?s) * 2 ^ (4 + 52)) = 7205759403792794"
      by (simp add: round_even_def)
    finally show ?thesis by (simp add: float_add_def)
  qed
  have a4: "float_add (3602879701896397 / 2 ^ 55) ?s = 4803839602528529 / 2 ^ 55"
  proof -
    have "to_double (3602879701896397 / 2 ^ 55 + ?s)
        = of_int (round_even ((3602879701896397 / 2 ^ 55 + ?s) * 2 ^ (3 + 52))) / 2 ^ (3 + 52)"
      by (rule to_double_eval) simp_all
    also have "round_even ((3602879701896397 / 2 ^ 55 + ?s) * 2 ^ (3 + 52)) = 4803839602528529"
      by (simp add: round_even_def)
    finally show ?thesis by (simp add: float_add_def)
  qed
  have a5: "float_add (4803839602528529 / 2 ^ 55) ?s = 6004799503160661 / 2 ^ 55"
  proof -
    have "to_double (4803839602528529 / 2 ^ 55 + ?s)
        = of_int (round_even ((4803839602528529 / 2 ^ 55 + ?s) * 2 ^ (3 + 52))) / 2 ^ (3 + 52)"
      by (rule to_double_eval) simp_all
    also have "round_even ((4803839602528529 / 2 ^ 55 + ?s) * 2 ^ (3 + 52)) = 6004799503160661"
      by (simp add: round_even_def)
    finally show ?thesis by (simp add: float_add_def)
  qed
  have a6: "float_add (6004799503160661 / 2 ^ 55) ?s = 7205759403792793 / 2 ^ 55"
  proof -
    have "to_double (6004799503160661 / 2 ^ 55 + ?s)
        = of_int (round_even ((6004799503160661 / 2 ^ 55 + ?s) * 2 ^ (3 + 52))) / 2 ^ (3 + 52)"
      by (rule to_double_eval) simp_all
    also have "round_even ((6004799503160661 / 2 ^ 55 + ?s) * 2 ^ (3 + 52)) = 7205759403792793"
      by (simp add: round_even_def)
    finally show ?thesis by (simp add: float_add_def)
  qed
  have "time_after 6 0 = time_after (Suc (Suc (Suc (Suc (Suc (Suc 0)))))) 0"
    by (simp add: eval_nat_numeral)
  also have "\<dots> = 7205759403792793 / 2 ^ 55"
    by (simp only: time_after.simps thirtieth a1 a2 a3 a4 a5 a6)
  finally show ?thesis .
qed

lemma fifth: "float_div 6 30 = 3602879701896397 / 2 ^ 54"
proof -
  have "to_double (6 / 30) = of_int (round_even ((6 / 30) * 2 ^ (3 + 52))) / 2 ^ (3 + 52)"
    by (rule to_double_eval) simp_all
  also have "round_even ((6 / 30) * 2 ^ (3 + 52)) = 7205759403792794"
    by (simp add: round_even_def)
  finally show ?thesis by (simp add: float_div_def)
qed

text \<open>
  Claim C4, amended. A constructed chess generator has \<open>t = 0\<close>. From there \<open>n\<close> calls of
  \<open>render\<close> succeed and leave the time \<open>time_after n 0\<close>, the float sum of \<open>n\<close> terms
  \<open>1.0/30.0\<close>, each call adding one term to what the call before left. The next call, the
  \<open>(n+1)\<close>-th, stores the pose computed from the time it read on entry, \<open>time_after n 0\<close>, and
  leaves \<open>time_after (n + 1) 0\<close>. The pose is the look-at of \<open>eye_pos\<close> and \<open>target_pos\<close>, and
  the geometry at a time \<open>tm\<close> is given by the formulas of lines 143-148.
\<close>

theorem Chess_time:
  assumes "Chess_init e kw w0 = Inr (g, w1)"
  shows "(\<exists>c. variant g = VChess c \<and> t c = 0 \<and> grid_size c = (10, 7)
      \<and> (\<exists>cn wn c' w'.
            Chess_renders e n c dst w = Inr (cn, wn) \<and> t cn = time_after n 0
            \<and> Chess_render e cn dst wn = Inr (c', w') \<and> t c' = time_after (Suc n) 0
            \<and> rvec c' = Some (fst (pose_at e (10, 7) (time_after n 0)))
            \<and> tvec c' = Some (snd (pose_at e (10, 7) (time_after n 0)))))
   \<and> time_after 0 0 = 0
   \<and> time_after (Suc n) 0 = float_add (time_after n 0) (float_div 1 30)
   \<and> float_div 1 30 = 4803839602528529 / 2 ^ 57
   \<and> pose_at e (sx, sy) tm =
       (mtx2rvec e (fst (lookat e (fst (snd (snd (camera (sx, sy) tm)))) (snd (snd (snd (camera (sx, sy) tm)))))),
        snd (lookat e (fst (snd (snd (camera (sx, sy) tm)))) (snd (snd (snd (camera (sx, sy) tm))))))
   \<and> camera (sx, sy) tm =
       (pi / 3 + sin (3 * tm) * pi / 8,
        (sin (12 / 10 * tm) * (2 / 10 * real sx), cos (18 / 10 * tm) * (2 / 10 * real sx), 0),
        (real sx / 2 + cos tm * cos (pi / 3 + sin (3 * tm) * pi / 8) * 15 + sin (12 / 10 * tm) * (2 / 10 * real sx),
         real sy / 2 + sin tm * cos (pi / 3 + sin (3 * tm) * pi / 8) * 15 + cos (18 / 10 * tm) * (2 / 10 * real sx),
         sin (pi / 3 + sin (3 * tm) * pi / 8) * 15),
        (real sx / 2 + sin (12 / 10 * tm) * (2 / 10 * real sx),
         real sy / 2 + cos (18 / 10 * tm) * (2 / 10 * real sx), 0))"
proof -
  from assms obtain c where c: "variant g = VChess c" "t c = 0" "grid_size c = (10, 7)"
    by (auto simp: Chess_init_def bind_err_def Let_def split: sum.splits)
  obtain cn wn where n: "Chess_renders e n c dst w = Inr (cn, wn)" "t cn = time_after n (t c)"
      "grid_size cn = grid_size c"
    using Chess_renders_time [of e n c dst w] by auto
  have tn: "t cn = time_after n 0"
    by (simp only: n(2) c(2))
  have same: "pose_at e (grid_size cn) (t cn) = pose_at e (10, 7) (time_after n 0)"
    by (simp only: tn n(3) c(3))
  have next_t: "float_add (t cn) (float_div 1 30) = time_after (Suc n) 0"
    by (simp only: tn time_after_Suc)
  obtain w' where "Chess_render e cn dst wn
      = Inr (cn\<lparr>t := float_add (t cn) (float_div 1 30),
               tvec := Some (snd (pose_at e (grid_size cn) (t cn))),
               rvec := Some (fst (pose_at e (grid_size cn) (t cn)))\<rparr>, w')"
    using Chess_render_ok [of e cn dst wn] by blast
  then have r: "Chess_render e cn dst wn
      = Inr (cn\<lparr>t := time_after (Suc n) 0, tvec := Some (snd (pose_at e (10, 7) (time_after n 0))),
               rvec := Some (fst (pose_at e (10, 7) (time_after n 0)))\<rparr>, w')"
    by (simp only: same next_t)
  have "\<exists>cn wn c' w'.
            Chess_renders e n c dst w = Inr (cn, wn) \<and> t cn = time_after n 0
            \<and> Chess_render e cn dst wn = Inr (c', w') \<and> t c' = time_after (Suc n) 0
            \<and> rvec c' = Some (fst (pose_at e (10, 7) (time_after n 0)))
            \<and> tvec c' = Some (snd (pose_at e (10, 7) (time_after n 0)))"
    apply (rule exI [of _ cn], rule exI [of _ wn])
    apply (intro exI conjI)
         apply (rule n(1))
        apply (rule tn)
       apply (rule r)
      apply simp_all
    done
  with c have first: "\<exists>c. variant g = VChess c \<and> t c = 0 \<and> grid_size c = (10, 7)
      \<and> (\<exists>cn wn c' w'.
            Chess_renders e n c dst w = Inr (cn, wn) \<and> t cn = time_after n 0
            \<and> Chess_render e cn dst wn = Inr (c', w') \<and> t c' = time_after (Suc n) 0
            \<and> rvec c' = Some (fst (pose_at e (10, 7) (time_after n 0)))
            \<and> tvec c' = Some (snd (pose_at e (10, 7) (time_after n 0))))"
    by blast
  have second: "pose_at e (sx, sy) tm =
       (mtx2rvec e (fst (lookat e (fst (snd (snd (camera (sx, sy) tm)))) (snd (snd (snd (camera (sx, sy) tm)))))),
        snd (lookat e (fst (snd (snd (camera (sx, sy) tm)))) (snd (snd (snd (camera (sx, sy) tm))))))"
    by (simp add: pose_at_def case_prod_beta)
  have third: "camera (sx, sy) tm =
       (pi / 3 + sin (3 * tm) * pi / 8,
        (sin (12 / 10 * tm) * (2 / 10 * real sx), cos (18 / 10 * tm) * (2 / 10 * real sx), 0),
        (real sx / 2 + cos tm * cos (pi / 3 + sin (3 * tm) * pi / 8) * 15 + sin (12 / 10 * tm) * (2 / 10 * real sx),
         real sy / 2 + sin tm * cos (pi / 3 + sin (3 * tm) * pi / 8) * 15 + cos (18 / 10 * tm) * (2 / 10 * real sx),
         sin (pi / 3 + sin (3 * tm) * pi / 8) * 15),
        (real sx / 2 + sin (12 / 10 * tm) * (2 / 10 * real sx),
         real sy / 2 + cos (18 / 10 * tm) * (2 / 10 * real sx), 0))"
    by (simp add: camera_def vadd_def vscale_def Let_def mult.commute)
  have fourth: "time_after 0 0 = 0" by simp
  from first second third fourth time_after_Suc [of n 0] thirtieth show ?thesis by blast
qed

theorem Chess_time_witness:
  "\<exists>g w1 c cn wn c' w'.
      Chess_init bare_env Map.empty world0 = Inr (g, w1) \<and> variant g = VChess c \<and> t c = 0
      \<and> Chess_renders bare_env 6 c 0 (snd (alloc (zeros 480 640) w1)) = Inr (cn, wn)
      \<and> t cn = 7205759403792793 / 2 ^ 55
      \<and> Chess_render bare_env cn 0 wn = Inr (c', w')
      \<and> tvec c' = Some (snd (pose_at bare_env (10, 7) (7205759403792793 / 2 ^ 55)))"
proof -
  obtain g w1 where h: "Chess_init bare_env Map.empty world0 = Inr (g, w1)"
    by (simp add: open_defs bind_err_def)
  from Chess_time [OF h, of 6 0 "snd (alloc (zeros 480 640) w1)"] h show ?thesis
    unfolding six_steps by blast
qed

lemma read_base_or_chess: "sound g w \<Longrightarrow> read e g w = VideoSynthBase_read e g w"
  by (cases "variant g") (simp_all add: read_def sound_def)

lemma Chess_fresh:
  "Chess_init bare_env Map.empty world0
     = Inr (\<lparr>bg = None, frame_size = (640, 480), noise = 0,
             variant = VChess \<lparr>grid_size = (10, 7), white_quads = quads_of_parity 10 7 0,
               black_quads = quads_of_parity 10 7 1,
               K = ((576, 0, 639 / 2), (0, 576, 479 / 2), (0, 0, 1)),
               dist_coef = [- (2 / 10), 1 / 10, 0, 0], t = 0, rvec = None, tvec = None\<rparr>\<rparr>, world0)"
  by (simp add: Chess_init_def VideoSynthBase_init_def load_bg_def apply_size_def parse_noise_def bind_err_def)

text \<open>
  A fresh \<open>Chess()\<close>, in an environment whose look-at helper hands back the target position.
  The translation stored by the first \<open>read\<close> is the target at time \<open>0\<close>, not the target at
  the advanced time, whether that is taken as \<open>1/30\<close> or as the float \<open>1.0/30.0\<close>. And after six
  calls of \<open>render\<close> the time is \<open>0.19999999999999998\<close>, which is neither \<open>6/30\<close> nor the float
  \<open>6.0/30.0\<close>.
\<close>

theorem Chess_time_counterexample:
  "(case Chess_init bare_env Map.empty world0 of
      Inl err \<Rightarrow> None
    | Inr (g, w) \<Rightarrow>
        (case read bare_env g w of
           Inl err \<Rightarrow> None
         | Inr (ok, a, g', w') \<Rightarrow> (case variant g' of VChess c \<Rightarrow> tvec c | _ \<Rightarrow> None)))
     = Some (5, 11 / 2, 0)
   \<and> snd (pose_at bare_env (10, 7) (1 / 30)) \<noteq> (5, 11 / 2, 0)
   \<and> snd (pose_at bare_env (10, 7) (float_div 1 30)) \<noteq> (5, 11 / 2, 0)
   \<and> (case Chess_init bare_env Map.empty world0 of
         Inl err \<Rightarrow> None
       | Inr (g, w) \<Rightarrow>
           (case variant g of
              VChess c \<Rightarrow>
                (case Chess_renders bare_env 6 c 0 (snd (alloc (zeros 480 640) w)) of
                   Inl err \<Rightarrow> None
                 | Inr (c6, w6) \<Rightarrow> Some (t c6))
            | _ \<Rightarrow> None))
     = Some (7205759403792793 / 2 ^ 55)
   \<and> (7205759403792793 / 2 ^ 55 :: real) \<noteq> 6 / 30
   \<and> 7205759403792793 / 2 ^ 55 \<noteq> float_div 6 30"
proof -
  let ?c = "\<lparr>grid_size = (10, 7), white_quads = quads_of_parity 10 7 0,
               black_quads = quads_of_parity 10 7 1,
               K = ((576, 0, 639 / 2), (0, 576, 479 / 2), (0, 0, 1)),
               dist_coef = [- (2 / 10), 1 / 10, 0, 0], t = 0, rvec = None, tvec = None\<rparr>"
  let ?g = "\<lparr>bg = None, frame_size = (640, 480), noise = 0, variant = VChess ?c\<rparr>"
  have s: "sound ?g world0" by (simp add: sound_def)
  obtain a w' where "VideoSynthBase_read bare_env ?g world0 = Inr (True, a, advance bare_env ?g, w')"
    using read_ok [OF s, of bare_env] by blast
  then have rd: "read bare_env ?g world0 = Inr (True, a, advance bare_env ?g, w')"
    using read_base_or_chess [OF s, of bare_env] by simp
  have p0: "snd (pose_at bare_env (10, 7) 0) = (5, 11 / 2, 0)"
    by (simp add: pose_at_def camera_def bare_env_def vadd_def vscale_def Let_def)
  have "(0::real) < 1 / 25" "(1 / 25 :: real) < pi"
    using pi_ge_two by simp_all
  then have "0 < sin (1 / 25 :: real)" by (rule sin_gt_zero)
  then have p1: "snd (pose_at bare_env (10, 7) (1 / 30)) \<noteq> (5, 11 / 2, 0)"
    by (simp add: pose_at_def camera_def bare_env_def vadd_def vscale_def Let_def)
  have "(0::real) < 12 / 10 * (4803839602528529 / 2 ^ 57)" "(12 / 10 * (4803839602528529 / 2 ^ 57) :: real) < pi"
    using pi_ge_two by simp_all
  then have "0 < sin (12 / 10 * (4803839602528529 / 2 ^ 57) :: real)" by (rule sin_gt_zero)
  then have p2: "snd (pose_at bare_env (10, 7) (float_div 1 30)) \<noteq> (5, 11 / 2, 0)"
    unfolding thirtieth by (simp add: pose_at_def camera_def bare_env_def vadd_def vscale_def Let_def)
  have "(case Chess_init bare_env Map.empty world0 of
      Inl err \<Rightarrow> None
    | Inr (g, w) \<Rightarrow>
        (case read bare_env g w of
           Inl err \<Rightarrow> None
         | Inr (ok, a, g', w') \<Rightarrow> (case variant g' of VChess c \<Rightarrow> tvec c | _ \<Rightarrow> None)))
     = (case variant (advance bare_env ?g) of VChess c \<Rightarrow> tvec c | _ \<Rightarrow> None)"
    by (simp only: Chess_fresh rd sum.case prod.case)
  also have "\<dots> = Some (snd (pose_at bare_env (10, 7) 0))"
    by (simp add: advance_def)
  finally have first: "(case Chess_init bare_env Map.empty world0 of
      Inl err \<Rightarrow> None
    | Inr (g, w) \<Rightarrow>
        (case read bare_env g w of
           Inl err \<Rightarrow> None
         | Inr (ok, a, g', w') \<Rightarrow> (case variant g' of VChess c \<Rightarrow> tvec c | _ \<Rightarrow> None)))
     = Some (5, 11 / 2, 0)"
    using p0 by simp
  obtain c6 w6 where "Chess_renders bare_env 6 ?c 0 (snd (alloc (zeros 480 640) world0)) = Inr (c6, w6)"
      "t c6 = time_after 6 (t ?c)"
    using Chess_renders_time [of bare_env 6 ?c 0 "snd (alloc (zeros 480 640) world0)"] by blast
  then have r6: "Chess_renders bare_env 6 ?c 0 (snd (alloc (zeros 480 640) world0)) = Inr (c6, w6)"
    and t6: "t c6 = 7205759403792793 / 2 ^ 55"
    by (simp_all add: six_steps)
  have drift: "(case Chess_init bare_env Map.empty world0 of
         Inl err \<Rightarrow> None
       | Inr (g, w) \<Rightarrow>
           (case variant g of
              VChess c \<Rightarrow>
                (case Chess_renders bare_env 6 c 0 (snd (alloc (zeros 480 640) w)) of
                   Inl err \<Rightarrow> None
                 | Inr (c6, w6) \<Rightarrow> Some (t c6))
            | _ \<Rightarrow> None))
     = Some (7205759403792793 / 2 ^ 55)"
    by (simp only: Chess_fresh sum.case prod.case generator.simps variant.case r6 t6)
  have ne1: "(7205759403792793 / 2 ^ 55 :: real) \<noteq> 6 / 30" by simp
  have ne2: "7205759403792793 / 2 ^ 55 \<noteq> float_div 6 30" unfolding fifth by simp
  from first p1 p2 drift ne1 ne2 show ?thesis by blast
qed

section \<open>Construction, frames and frame effects\<close>

lemma load_bg_sound:
  assumes "load_bg e b w0 = Inr ((bgo, fs), w1)"
  shows "0 \<le> fst fs \<and> 0 \<le> snd fs \<and> stdout w1 = stdout w0
     \<and> (b = None \<longrightarrow> bgo = None)
     \<and> (case bgo of
           None \<Rightarrow> True
         | Some a \<Rightarrow> a < length (heap w1) \<and> rows (heap w1 ! a) = nat (snd fs) \<and> cols (heap w1 ! a) = nat (fst fs))"
  using assms
  by (auto simp: load_bg_def alloc_def split: option.splits)

lemma apply_size_sound:
  assumes "apply_size e sz (bgo, fs) w1 = Inr ((bgo', fs'), w2)"
    and "0 \<le> fst fs \<and> 0 \<le> snd fs"
    and "case bgo of
           None \<Rightarrow> True
         | Some a \<Rightarrow> a < length (heap w1) \<and> rows (heap w1 ! a) = nat (snd fs) \<and> cols (heap w1 ! a) = nat (fst fs)"
  shows "0 \<le> fst fs' \<and> 0 \<le> snd fs' \<and> stdout w2 = stdout w1
     \<and> (\<forall>s. sz = Some s \<longrightarrow> parse_size s = Inr fs' \<and> 0 < fst fs' \<and> 0 < snd fs' \<and> bgo \<noteq> None)
     \<and> (case bgo' of
           None \<Rightarrow> True
         | Some a \<Rightarrow> a < length (heap w2) \<and> rows (heap w2 ! a) = nat (snd fs') \<and> cols (heap w2 ! a) = nat (fst fs'))"
proof (cases sz)
  case None
  with assms show ?thesis by (auto simp: apply_size_def split: option.splits)
next
  case (Some s)
  with assms(1) obtain im where p: "parse_size s = Inr fs'"
    and r: "cv_resize e (map_option (\<lambda>a. heap w1 ! a) bgo) fs' = Inr im"
    and o: "bgo' = Some (length (heap w1))" "w2 = w1\<lparr>heap := heap w1 @ [im]\<rparr>"
    by (auto simp: apply_size_def bind_err_def alloc_def split: sum.splits)
  from r have "bgo \<noteq> None" "0 < fst fs'" "0 < snd fs'" "rows im = nat (snd fs')" "cols im = nat (fst fs')"
    by (auto simp: cv_resize_def split: option.splits if_splits)
  with Some p o show ?thesis by simp
qed

lemma base_init_sound:
  assumes "VideoSynthBase_init e kw w0 = Inr (g, w)"
  shows "sound g w \<and> variant g = VBase \<and> stdout w = stdout w0
     \<and> (\<forall>s. kw ''size'' = Some s \<longrightarrow> parse_size s = Inr (frame_size g) \<and> 0 < fst (frame_size g)
            \<and> 0 < snd (frame_size g) \<and> kw ''bg'' \<noteq> None)"
proof -
  from assms obtain bgo fs w1 bgo' fs' nz where
    l: "load_bg e (kw ''bg'') w0 = Inr ((bgo, fs), w1)"
    and a: "apply_size e (kw ''size'') (bgo, fs) w1 = Inr ((bgo', fs'), w)"
    and g: "g = \<lparr>bg = bgo', frame_size = fs', noise = nz, variant = VBase\<rparr>"
    by (auto simp: VideoSynthBase_init_def bind_err_def split: if_splits sum.splits)
  note L = load_bg_sound [OF l]
  from L have l1: "0 \<le> fst fs \<and> 0 \<le> snd fs" by simp
  from L have l2: "case bgo of
           None \<Rightarrow> True
         | Some a \<Rightarrow> a < length (heap w1) \<and> rows (heap w1 ! a) = nat (snd fs) \<and> cols (heap w1 ! a) = nat (fst fs)"
    by simp
  note A = apply_size_sound [OF a l1 l2]
  from L have "kw ''bg'' = None \<longrightarrow> bgo = None" by simp
  with A L g show ?thesis
    by (auto simp: sound_def split: option.splits)
qed

lemma Chess_init_sound:
  assumes "Chess_init e kw w0 = Inr (g, w)"
  shows "sound g w \<and> (\<exists>c. variant g = VChess c \<and> t c = 0 \<and> grid_size c = (10, 7)) \<and> stdout w = stdout w0
     \<and> (\<forall>s. kw ''size'' = Some s \<longrightarrow> parse_size s = Inr (frame_size g) \<and> 0 < fst (frame_size g)
            \<and> 0 < snd (frame_size g) \<and> kw ''bg'' \<noteq> None)"
proof -
  from assms obtain g0 where i: "VideoSynthBase_init e kw w0 = Inr (g0, w)"
    and g: "bg g = bg g0" "frame_size g = frame_size g0"
      "\<exists>c. variant g = VChess c \<and> t c = 0 \<and> grid_size c = (10, 7)"
    by (auto simp: Chess_init_def bind_err_def Let_def split: sum.splits)
  from base_init_sound [OF i] g show ?thesis
    by (auto simp: sound_def split: option.splits)
qed

lemma construct_sound:
  assumes "construct e k kw w0 = Inr (g, w)" and "k = ClsBase \<or> k = ClsChess"
  shows "sound g w \<and> stdout w = stdout w0
     \<and> (\<forall>s. kw ''size'' = Some s \<longrightarrow> parse_size s = Inr (frame_size g) \<and> 0 < fst (frame_size g)
            \<and> 0 < snd (frame_size g) \<and> kw ''bg'' \<noteq> None)"
  using assms base_init_sound [of e kw w0 g w] Chess_init_sound [of e kw w0 g w]
  by (auto simp: construct_def)

lemma advance_base [simp]: "variant g = VBase \<Longrightarrow> advance e g = g"
  by (simp add: advance_def)

lemma base_image_extend:
  assumes "sound g w" and "take (length (heap w)) (heap w') = heap w"
  shows "base_image g w' = base_image g w"
proof (cases "bg g")
  case None
  then show ?thesis by (simp add: base_image_def)
next
  case (Some b)
  with assms(1) have "b < length (heap w)" by (simp add: sound_def)
  then have "heap w' ! b = heap w ! b"
    using assms(2) by (metis nth_take)
  with Some show ?thesis by (simp add: base_image_def)
qed

lemma reads_ok:
  assumes "sound g w"
  shows "\<exists>frames g' w'. reads e n g w = Inr (frames, g', w') \<and> length frames = n \<and> sound g' w'
     \<and> frame_size g' = frame_size g \<and> noise g' = noise g \<and> bg g' = bg g
     \<and> take (length (heap w)) (heap w') = heap w \<and> stdout w' = stdout w
     \<and> (\<forall>f \<in> set frames. fst f \<and> rows (snd f) = nat (snd (frame_size g))
            \<and> cols (snd f) = nat (fst (frame_size g)))
     \<and> (variant g = VBase \<longrightarrow> g' = g)
     \<and> (variant g = VBase \<and> \<not> 0 < noise g \<longrightarrow> (\<forall>f \<in> set frames. snd f = base_image g w))"
  using assms
proof (induction n arbitrary: g w)
  case 0
  then show ?case by simp
next
  case (Suc n)
  obtain a w1 where r: "VideoSynthBase_read e g w = Inr (True, a, advance e g, w1)"
    and s1: "sound (advance e g) w1"
    and a: "length (heap w) \<le> a" "a < length (heap w1)"
    and tk: "take (length (heap w)) (heap w1) = heap w"
    and out: "stdout w1 = stdout w"
    and dims: "rows (heap w1 ! a) = nat (snd (frame_size g))" "cols (heap w1 ! a) = nat (fst (frame_size g))"
    and img: "variant g = VBase \<and> \<not> 0 < noise g \<longrightarrow> heap w1 ! a = base_image g w"
    using read_ok [OF Suc.prems, of e] by blast
  have rd: "read e g w = Inr (True, a, advance e g, w1)"
    using r read_base_or_chess [OF Suc.prems, of e] by simp
  obtain frames g' w' where
    rs: "reads e n (advance e g) w1 = Inr (frames, g', w')" and len: "length frames = n"
    and s': "sound g' w'"
    and same: "frame_size g' = frame_size (advance e g)" "noise g' = noise (advance e g)" "bg g' = bg (advance e g)"
    and tk': "take (length (heap w1)) (heap w') = heap w1" and out': "stdout w' = stdout w1"
    and fr: "\<forall>f \<in> set frames. fst f \<and> rows (snd f) = nat (snd (frame_size (advance e g)))
            \<and> cols (snd f) = nat (fst (frame_size (advance e g)))"
    and vb: "variant (advance e g) = VBase \<longrightarrow> g' = advance e g"
    and im': "variant (advance e g) = VBase \<and> \<not> 0 < noise (advance e g)
         \<longrightarrow> (\<forall>f \<in> set frames. snd f = base_image (advance e g) w1)"
    using Suc.IH [OF s1] by blast
  have res: "reads e (Suc n) g w = Inr ((True, heap w1 ! a) # frames, g', w')"
    using rd rs by (simp add: bind_err_def)
  have le: "length (heap w) \<le> length (heap w1)"
    using a by simp
  have tk2: "take (length (heap w)) (heap w') = heap w"
  proof -
    have "take (length (heap w)) (heap w') = take (length (heap w)) (take (length (heap w1)) (heap w'))"
      using le by (simp add: min_def)
    then show ?thesis using tk tk' by simp
  qed
  have bi: "variant g = VBase \<longrightarrow> base_image (advance e g) w1 = base_image g w"
    using base_image_extend [OF Suc.prems tk] by auto
  show ?case
    apply (rule exI [of _ "(True, heap w1 ! a) # frames"], rule exI [of _ g'], rule exI [of _ w'])
    using res len s' same tk2 out out' fr vb im' img dims bi
    by auto
qed








lemma scene_read_ok:
  assumes "variant g = VBook en \<or> variant g = VCube en"
    and "getNextFrame e en = Inr (frame, en')"
    and "rows frame = rows (sceneBg en)" "cols frame = cols (sceneBg en)"
  shows "\<exists>a g' w'. read e g w = Inr (True, a, g', w')"
  using assms
  by (auto simp: read_def Scene_read_def bind_err_def draw_noise_def alloc_def cv_add_def)







text \<open>
  Claim C5. A base generator (no \<open>render\<close> override) that was constructed with noise level
  \<open>0\<close> is left unchanged by any number of reads, all of which succeed, and every frame is the
  same image: the value of the stored background, or zeros of the frame size without one.
\<close>

theorem zero_noise_identity:
  assumes "VideoSynthBase_init e kw w0 = Inr (g, w)" and "noise g = 0"
  shows "\<exists>frames g' w'. reads e n g w = Inr (frames, g', w') \<and> length frames = n \<and> g' = g
     \<and> (\<forall>f \<in> set frames. f = (True,
           case bg g of
             None \<Rightarrow> zeros (nat (snd (frame_size g))) (nat (fst (frame_size g)))
           | Some b \<Rightarrow> heap w ! b))"
proof -
  from base_init_sound [OF assms(1)] have s: "sound g w" and v: "variant g = VBase"
    by simp_all
  from reads_ok [OF s, of e n] v assms(2) obtain frames g' w' where
    "reads e n g w = Inr (frames, g', w')" "length frames = n" "g' = g"
    "\<forall>f \<in> set frames. fst f" "\<forall>f \<in> set frames. snd f = base_image g w"
    by auto
  then show ?thesis
    by (auto simp: base_image_def prod_eq_iff)
qed

theorem zero_noise_identity_witness:
  "(case VideoSynthBase_init studio_env [''bg'' \<mapsto> ''../data/lena.jpg''] world0 of
      Inl err \<Rightarrow> False
    | Inr (g, w) \<Rightarrow>
        noise g = 0
        \<and> (\<exists>frames g' w'. reads studio_env 2 g w = Inr (frames, g', w') \<and> length frames = 2
              \<and> (\<forall>f \<in> set frames. f = (True, zeros 2 2))))"
proof -
  let ?kw = "[''bg'' \<mapsto> ''../data/lena.jpg'']"
  let ?g = "\<lparr>bg = Some 0, frame_size = (2, 2), noise = 0, variant = VBase\<rparr>"
  let ?w = "\<lparr>heap = [zeros 2 2], draws = 0, stdout = []\<rparr>"
  have h1: "VideoSynthBase_init studio_env ?kw world0 = Inr (?g, ?w)"
    by (simp add: open_defs bind_err_def studio_env_def bare_env_def world0_def alloc_def zeros_def)
  have h2: "noise ?g = 0" by simp
  show ?thesis
    unfolding h1 using zero_noise_identity [OF h1 h2, of 2] by auto
qed

lemma read_flag: "read e g w = Inr (ok, a, g', w') \<Longrightarrow> ok"
  by (auto simp: read_def Scene_read_def VideoSynthBase_read_def bind_err_def Let_def draw_noise_def alloc_def
      split: variant.splits sum.splits prod.splits option.splits if_splits)

text \<open>
  Claim C6. After a successful construction of a base or chess generator, any number of
  consecutive reads all succeed with flag \<open>True\<close>, and the source is open afterwards. For any
  generator, a read that returns has flag \<open>True\<close>; a \<open>Book\<close> or \<open>Cube\<close> read returns whenever
  its engine hands out a frame of the shape of its background. \<open>isOpened\<close> is \<open>True\<close> for every
  generator.
\<close>

theorem synthetic_read_ok:
  "(construct e k kw w0 = Inr (g, w) \<and> (k = ClsBase \<or> k = ClsChess) \<longrightarrow>
      (\<exists>frames g' w'. reads e n g w = Inr (frames, g', w') \<and> length frames = n
          \<and> (\<forall>f \<in> set frames. fst f) \<and> isOpened (Synth g')))
   \<and> (read e g1 w1 = Inr (ok, a, g2, w2) \<longrightarrow> ok)
   \<and> ((variant g1 = VBook en \<or> variant g1 = VCube en) \<and> getNextFrame e en = Inr (frame, en')
        \<and> rows frame = rows (sceneBg en) \<and> cols frame = cols (sceneBg en) \<longrightarrow>
        (\<exists>b g3 w3. read e g1 w1 = Inr (True, b, g3, w3)))
   \<and> isOpened (Synth g1)"
proof -
  have "\<exists>frames g' w'. reads e n g w = Inr (frames, g', w') \<and> length frames = n
          \<and> (\<forall>f \<in> set frames. fst f) \<and> isOpened (Synth g')"
    if c: "construct e k kw w0 = Inr (g, w)" and k: "k = ClsBase \<or> k = ClsChess"
  proof -
    from construct_sound [OF c k] have "sound g w" by simp
    from reads_ok [OF this, of e n] show ?thesis
      by (auto simp: isOpened_def isOpened_synth_def)
  qed
  moreover have "read e g1 w1 = Inr (ok, a, g2, w2) \<longrightarrow> ok"
    using read_flag by blast
  moreover have "(variant g1 = VBook en \<or> variant g1 = VCube en) \<and> getNextFrame e en = Inr (frame, en')
        \<and> rows frame = rows (sceneBg en) \<and> cols frame = cols (sceneBg en) \<longrightarrow>
        (\<exists>b g3 w3. read e g1 w1 = Inr (True, b, g3, w3))"
    using scene_read_ok [of g1 en e frame en' w1] by blast
  moreover have "isOpened (Synth g1)"
    by (simp add: isOpened_def isOpened_synth_def)
  ultimately show ?thesis by blast
qed

theorem synthetic_read_ok_witness:
  "(\<exists>g w. construct studio_env ClsChess Map.empty world0 = Inr (g, w)
      \<and> (\<exists>frames g' w'. reads studio_env 3 g w = Inr (frames, g', w') \<and> length frames = 3
            \<and> (\<forall>f \<in> set frames. fst f) \<and> isOpened (Synth g')))
   \<and> (\<exists>g1 w1 a g2 w2. Book_init studio_env Map.empty world0 = Inr (g1, w1)
        \<and> read studio_env g1 w1 = Inr (True, a, g2, w2))"
proof -
  obtain g w where c: "construct studio_env ClsChess Map.empty world0 = Inr (g, w)"
    by (simp add: open_defs bind_err_def)
  let ?en = "\<lparr>sceneBg = zeros 3 4, anim = 0\<rparr>"
  let ?g1 = "\<lparr>bg = None, frame_size = (640, 480), noise = 0, variant = VBook ?en\<rparr>"
  have b: "Book_init studio_env Map.empty world0 = Inr (?g1, world0)"
    by (simp add: open_defs bind_err_def studio_env_def bare_env_def zeros_def)
  have v: "variant ?g1 = VBook ?en \<or> variant ?g1 = VCube ?en" by simp
  have n: "getNextFrame studio_env ?en = Inr (sceneBg ?en, ?en\<lparr>anim := anim ?en + 1\<rparr>)"
    by (simp add: studio_env_def bare_env_def)
  note T = synthetic_read_ok [of studio_env ClsChess Map.empty world0 g w 3 ?g1 world0 _ _ _ _ ?en
      "sceneBg ?en" "?en\<lparr>anim := anim ?en + 1\<rparr>"]
  from T c have "\<exists>frames g' w'. reads studio_env 3 g w = Inr (frames, g', w') \<and> length frames = 3
            \<and> (\<forall>f \<in> set frames. fst f) \<and> isOpened (Synth g')"
    by blast
  moreover from T v n have "\<exists>b g3 w3. read studio_env ?g1 world0 = Inr (True, b, g3, w3)"
    by blast
  ultimately show ?thesis
    using c b by blast
qed

lemma Chess_render_stale_pose:
  "Chess_render e (c\<lparr>rvec := rv, tvec := tv\<rparr>) dst w = Chess_render e c dst w"
  by (simp add: Chess_render_def Let_def case_prod_beta)

lemma read_stale_pose:
  "variant g = VChess c \<Longrightarrow> read e (g\<lparr>variant := VChess (c\<lparr>rvec := rv, tvec := tv\<rparr>)\<rparr>) w = read e g w"
  by (cases "bg g") (simp_all add: read_def VideoSynthBase_read_def render_def Chess_render_stale_pose)

text \<open>
  Claim C9, for base and chess generators, in any state reached by reads after construction.
  A read succeeds. It leaves background, frame size and noise level as they are; a base
  generator is unchanged, and a chess generator keeps its grid size, quads, intrinsic matrix
  and distortion coefficients while its time becomes the float sum of itself and \<open>1.0/30.0\<close>,
  which is never less, and is more as long as the time is below \<open>2^47\<close>. The frame is at an
  address that did not exist before the call, so it is not the background, and every array
  that existed before is unchanged. The pose attributes that \<open>render\<close> stores are overwritten
  before they are read: the call does the same whatever they hold, so they carry nothing
  from one frame to the next.
\<close>

theorem read_frame_effect:
  assumes "construct e k kw w0 = Inr (g0, w1)" and "k = ClsBase \<or> k = ClsChess"
    and "reads e n g0 w1 = Inr (frames, g, w)"
  shows "\<exists>a g' w'. read e g w = Inr (True, a, g', w')
     \<and> bg g' = bg g \<and> frame_size g' = frame_size g \<and> noise g' = noise g
     \<and> (variant g = VBase \<longrightarrow> g' = g)
     \<and> (\<forall>c. variant g = VChess c \<longrightarrow>
           (\<exists>c'. variant g' = VChess c' \<and> grid_size c' = grid_size c \<and> white_quads c' = white_quads c
                \<and> black_quads c' = black_quads c \<and> K c' = K c \<and> dist_coef c' = dist_coef c
                \<and> t c' = float_add (t c) (float_div 1 30) \<and> t c \<le> t c'
                \<and> (t c < 2 ^ 47 \<longrightarrow> t c < t c')))
     \<and> length (heap w) \<le> a \<and> a < length (heap w') \<and> bg g \<noteq> Some a
     \<and> take (length (heap w)) (heap w') = heap w
     \<and> (\<forall>c rv tv. variant g = VChess c \<longrightarrow>
           read e (g\<lparr>variant := VChess (c\<lparr>rvec := rv, tvec := tv\<rparr>)\<rparr>) w = read e g w)"
proof -
  from construct_sound [OF assms(1) assms(2)] have "sound g0 w1" by simp
  from reads_ok [OF this, of e n] assms(3) have s: "sound g w" by auto
  obtain a w' where r: "VideoSynthBase_read e g w = Inr (True, a, advance e g, w')"
    and a: "length (heap w) \<le> a" "a < length (heap w')"
    and tk: "take (length (heap w)) (heap w') = heap w"
    using read_ok [OF s, of e] by blast
  have rd: "read e g w = Inr (True, a, advance e g, w')"
    using r read_base_or_chess [OF s, of e] by simp
  have nb: "bg g \<noteq> Some a"
    using s a by (auto simp: sound_def)
  have ch: "\<forall>c. variant g = VChess c \<longrightarrow>
           (\<exists>c'. variant (advance e g) = VChess c' \<and> grid_size c' = grid_size c \<and> white_quads c' = white_quads c
                \<and> black_quads c' = black_quads c \<and> K c' = K c \<and> dist_coef c' = dist_coef c
                \<and> t c' = float_add (t c) (float_div 1 30) \<and> t c \<le> t c'
                \<and> (t c < 2 ^ 47 \<longrightarrow> t c < t c'))"
    using s by (auto simp: advance_def sound_def time_step)
  show ?thesis
    apply (rule exI [of _ a], rule exI [of _ "advance e g"], rule exI [of _ w'])
    using rd nb ch a tk read_stale_pose [of g _ e _ _ w]
    by simp
qed

theorem read_frame_effect_witness:
  "\<exists>g0 w1 frames g w.
      construct studio_env ClsChess [''bg'' \<mapsto> ''../data/lena.jpg'', ''noise'' \<mapsto> ''0.1''] world0 = Inr (g0, w1)
      \<and> reads studio_env 1 g0 w1 = Inr (frames, g, w)
      \<and> (\<exists>a g' w'. read studio_env g w = Inr (True, a, g', w')
            \<and> bg g' = bg g \<and> frame_size g' = frame_size g \<and> noise g' = noise g
            \<and> length (heap w) \<le> a \<and> a < length (heap w') \<and> bg g \<noteq> Some a
            \<and> take (length (heap w)) (heap w') = heap w)"
proof -
  let ?kw = "[''bg'' \<mapsto> ''../data/lena.jpg'', ''noise'' \<mapsto> ''0.1'']"
  obtain g0 w1 where c: "construct studio_env ClsChess ?kw world0 = Inr (g0, w1)"
    by (simp add: open_defs bind_err_def studio_env_def bare_env_def world0_def alloc_def zeros_def)
  have k: "ClsChess = ClsBase \<or> ClsChess = ClsChess" by simp
  from construct_sound [OF c k] have "sound g0 w1" by simp
  from reads_ok [OF this, of studio_env 1] obtain frames g w
    where r: "reads studio_env 1 g0 w1 = Inr (frames, g, w)" by blast
  from read_frame_effect [OF c k r] c r show ?thesis by blast
qed

section \<open>The fallback\<close>

lemma scene_init_stdout:
  "Book_init e kw w0 = Inr (g, w) \<Longrightarrow> stdout w = stdout w0"
  "Cube_init e kw w0 = Inr (g, w) \<Longrightarrow> stdout w = stdout w0"
  using base_init_sound [of e kw w0]
  by (auto simp: Book_init_def Cube_init_def bind_err_def Let_def split: sum.splits)

lemma attempt_stdout:
  assumes "attempt e d w = Inr (src, c, w1)"
  shows "stdout w1 = stdout w"
proof -
  from assms obtain params where o: "open_source e src params w = Inr (c, w1)"
    by (auto simp: attempt_def bind_err_def split: sum.splits)
  show ?thesis
  proof (cases "src = Name ''synth''")
    case False
    with o show ?thesis
      by (auto simp: open_source_def bind_err_def Let_def split: option.splits sum.splits)
  next
    case True
    show ?thesis
    proof (cases "construct e (class_of params) params w")
      case (Inl err)
      with o True show ?thesis by (simp add: open_source_def)
    next
      case (Inr r)
      obtain g w' where r: "r = (g, w')" by (cases r)
      with o True Inr have w': "w' = w1" by (simp add: open_source_def)
      from Inr r have "stdout w' = stdout w"
        using base_init_sound [of e params w g w'] Chess_init_sound [of e params w g w']
          scene_init_stdout [of e params w g w']
        by (cases "class_of params") (auto simp: construct_def)
      with w' show ?thesis by simp
    qed
  qed
qed

text \<open>
  Claim C1. When the source resolved from the descriptor is missing or not opened and a
  fallback is given, the result is that of resolving the fallback with no fallback, after the
  warning; a resolution with no fallback is a single attempt that returns what it got,
  opened or not, without a recursive call; and the whole call prints one warning or two,
  one per failed attempt. The function is total by its termination proof.
\<close>

theorem create_capture_one_hop:
  assumes "attempt e d w = Inr (src, c, w1)" and "unopened c"
  shows "create_capture e d (Some fb) w = create_capture e fb None (warn src w1)
     \<and> create_capture e fb None w' =
         (case attempt e fb w' of
            Inl err \<Rightarrow> Inl err
          | Inr (src2, c2, w2) \<Rightarrow> Inr (c2, if unopened c2 then warn src2 w2 else w2))
     \<and> (create_capture e d (Some fb) w = Inr (c3, w3) \<longrightarrow>
          length (stdout w) < length (stdout w3) \<and> length (stdout w3) \<le> length (stdout w) + 2)"
proof -
  have one: "create_capture e d (Some fb) w = create_capture e fb None (warn src w1)"
    using assms by (subst create_capture.simps) simp
  have two: "create_capture e fb None w' =
         (case attempt e fb w' of
            Inl err \<Rightarrow> Inl err
          | Inr (src2, c2, w2) \<Rightarrow> Inr (c2, if unopened c2 then warn src2 w2 else w2))"
    by (subst create_capture.simps) (simp split: sum.splits prod.splits)
  have three: "length (stdout w) < length (stdout w3) \<and> length (stdout w3) \<le> length (stdout w) + 2"
    if r: "create_capture e d (Some fb) w = Inr (c3, w3)"
  proof -
    from r one have f: "create_capture e fb None (warn src w1) = Inr (c3, w3)" by simp
    have l: "length (stdout (warn src w1)) = Suc (length (stdout w))"
      using attempt_stdout [OF assms(1)] by (simp add: warn_def)
    from f obtain s0 w0 where a: "attempt e fb (warn src w1) = Inr (s0, c3, w0)"
      and w3: "w3 = (if unopened c3 then warn s0 w0 else w0)"
      by (subst (asm) create_capture.simps) (auto split: sum.splits if_splits)
    from attempt_stdout [OF a] w3 l show ?thesis
      by (simp add: warn_def)
  qed
  from one two three show ?thesis by blast
qed

theorem create_capture_one_hop_witness:
  "attempt bare_env ''clip.avi'' world0
     = Inr (Name ''clip.avi'', Some (Video \<lparr>cap_source = Name ''clip.avi'', opened = False, props = []\<rparr>), world0)
   \<and> unopened (Some (Video \<lparr>cap_source = Name ''clip.avi'', opened = False, props = []\<rparr>))
   \<and> create_capture bare_env ''clip.avi'' (Some ''synth:class=chess:bg=../data/lena.jpg:noise=0.1:size=640x480'') world0
     = Inr (None, warn (Name ''synth'') (warn (Name ''clip.avi'') world0))
   \<and> length (stdout (warn (Name ''synth'') (warn (Name ''clip.avi'') world0))) = 2"
proof -
  have h1: "attempt bare_env ''clip.avi'' world0
     = Inr (Name ''clip.avi'', Some (Video \<lparr>cap_source = Name ''clip.avi'', opened = False, props = []\<rparr>), world0)"
    by (simp add: str_defs open_defs bare_env_def)
  have h2: "unopened (Some (Video \<lparr>cap_source = Name ''clip.avi'', opened = False, props = []\<rparr>))"
    by (simp add: unopened_def isOpened_def)
  have h3: "attempt bare_env ''synth:class=chess:bg=../data/lena.jpg:noise=0.1:size=640x480'' w
     = Inr (Name ''synth'', None, w)" for w
    by (simp add: str_defs open_defs bare_env_def)
  show ?thesis
    using create_capture_one_hop [OF h1 h2, of "''synth:class=chess:bg=../data/lena.jpg:noise=0.1:size=640x480''"
        "warn (Name ''clip.avi'') world0"] h1 h2
    by (simp add: h3 unopened_def warn_def world0_def)
qed

end
